theory Spec2Isabelle
  imports Complex_Main "HOL-Library.Log_Nat" "HOL-Library.AList"
begin

section \<open>JavaScript numbers\<close>

text \<open>
  A JavaScript \<open>number\<close> is an IEEE 754 binary64 value: NaN, the two infinities, or a
  finite value \<open>m * 2^e\<close> with \<open>\<bar>m\<bar> < 2^53\<close> and \<open>-1074 \<le> e\<close>. A finite value is kept
  as the rational it denotes; the two zeros are not told apart (they compare equal in
  JavaScript, and no code modelled here divides by a zero). Every arithmetic result is
  rounded to the nearest binary64 value, ties to the even significand, by \<open>fl\<close>.
\<close>

datatype number = NaN | Infinity | NegInfinity | Num rat

definition ilog2 :: "rat \<Rightarrow> int" where
  \<comment> \<open>for \<open>0 < q\<close>, the integer \<open>k\<close> with \<open>2^k \<le> q < 2^(k+1)\<close>\<close>
  "ilog2 q = (let (a, b) = quotient_of q; k = bitlen a - bitlen b
              in if 2 powi k \<le> q then k else k - 1)"

definition round_even :: "rat \<Rightarrow> int" where
  \<comment> \<open>nearest integer, a tie going to the even neighbour\<close>
  "round_even x = (let f = \<lfloor>x\<rfloor>; d = x - of_int f
                   in if d < 1/2 then f else if 1/2 < d then f + 1
                      else if even f then f else f + 1)"

definition ulp_exp :: "rat \<Rightarrow> int" where
  \<comment> \<open>exponent of the last place of a 53-bit significand; subnormals stop at \<open>-1074\<close>\<close>
  "ulp_exp q = max (ilog2 \<bar>q\<bar> - 52) (- 1074)"

definition rne :: "rat \<Rightarrow> rat" where
  "rne q = (if q = 0 then 0
            else of_int (round_even (q / 2 powi ulp_exp q)) * 2 powi ulp_exp q)"

definition fl :: "rat \<Rightarrow> number" where
  \<comment> \<open>the number value of a real: rounded, and an infinity once the rounded value
      reaches \<open>2^1024\<close> in magnitude\<close>
  "fl q = (let r = rne q
           in if r \<noteq> 0 \<and> 1024 \<le> ilog2 \<bar>r\<bar>
              then (if 0 < r then Infinity else NegInfinity)
              else Num r)"

definition is_double :: "rat \<Rightarrow> bool" where
  \<comment> \<open>a finite binary64 value: rounding leaves it alone and it is below \<open>2^1024\<close>\<close>
  "is_double q = (rne q = q \<and> (q = 0 \<or> ilog2 \<bar>q\<bar> < 1024))"

definition valid_number :: "number \<Rightarrow> bool" where
  "valid_number n = (case n of Num q \<Rightarrow> is_double q | _ \<Rightarrow> True)"

fun js_add :: "number \<Rightarrow> number \<Rightarrow> number" where
  "js_add (Num a) (Num b) = fl (a + b)"
| "js_add NaN _ = NaN"
| "js_add _ NaN = NaN"
| "js_add Infinity NegInfinity = NaN"
| "js_add NegInfinity Infinity = NaN"
| "js_add Infinity _ = Infinity"
| "js_add _ Infinity = Infinity"
| "js_add NegInfinity _ = NegInfinity"
| "js_add _ NegInfinity = NegInfinity"

definition js_neg :: "number \<Rightarrow> number" where
  "js_neg n = (case n of NaN \<Rightarrow> NaN | Infinity \<Rightarrow> NegInfinity
               | NegInfinity \<Rightarrow> Infinity | Num q \<Rightarrow> Num (- q))"

definition js_mul :: "number \<Rightarrow> number \<Rightarrow> number" where
  "js_mul x y =
     (case (x, y) of
        (Num a, Num b) \<Rightarrow> fl (a * b)
      | (NaN, _) \<Rightarrow> NaN
      | (_, NaN) \<Rightarrow> NaN
      | (Num a, i) \<Rightarrow> (if a = 0 then NaN else if 0 < a then i else js_neg i)
      | (i, Num b) \<Rightarrow> (if b = 0 then NaN else if 0 < b then i else js_neg i)
      | (i, j) \<Rightarrow> (if i = j then Infinity else NegInfinity))"

definition js_div :: "number \<Rightarrow> number \<Rightarrow> number" where
  \<comment> \<open>a zero divisor is read as \<open>+0\<close>; the only divisor in this program is \<open>100\<close>\<close>
  "js_div x y =
     (case (x, y) of
        (Num a, Num b) \<Rightarrow>
          (if b = 0 then (if a = 0 then NaN else if 0 < a then Infinity else NegInfinity)
           else fl (a / b))
      | (NaN, _) \<Rightarrow> NaN
      | (_, NaN) \<Rightarrow> NaN
      | (Num a, _) \<Rightarrow> Num 0
      | (i, Num b) \<Rightarrow> (if 0 \<le> b then i else js_neg i)
      | (_, _) \<Rightarrow> NaN)"

fun js_lt :: "number \<Rightarrow> number \<Rightarrow> bool" where
  "js_lt (Num a) (Num b) = (a < b)"
| "js_lt NegInfinity (Num b) = True"
| "js_lt NegInfinity Infinity = True"
| "js_lt (Num a) Infinity = True"
| "js_lt _ _ = False"

definition js_gt :: "number \<Rightarrow> number \<Rightarrow> bool" where
  "js_gt x y = js_lt y x"

definition js_ge :: "number \<Rightarrow> number \<Rightarrow> bool" where
  \<comment> \<open>\<open>x >= y\<close>: false as soon as one side is NaN\<close>
  "js_ge x y = (x \<noteq> NaN \<and> y \<noteq> NaN \<and> \<not> js_lt x y)"

definition truthy_number :: "number \<Rightarrow> bool" where
  "truthy_number n = (n \<noteq> NaN \<and> n \<noteq> Num 0)"

definition Math_round :: "number \<Rightarrow> number" where
  \<comment> \<open>the nearest integer, a tie going towards \<open>+\<infinity>\<close>\<close>
  "Math_round n = (case n of Num q \<Rightarrow> Num (of_int \<lfloor>q + 1/2\<rfloor>) | _ \<Rightarrow> n)"

section \<open>Reading numbers from strings\<close>

text \<open>
  Strings are ASCII. \<open>parseFloat\<close> skips leading white space, reads the longest prefix
  that is a decimal literal (sign, digits, fraction, exponent, or \<open>Infinity\<close>) and
  rounds its value; with no such prefix the result is NaN. \<open>parseInt(s, 10)\<close> reads a
  sign and the leading decimal digits.
\<close>

definition is_digit :: "char \<Rightarrow> bool" where
  "is_digit c = (c \<in> set ''0123456789'')"

definition digit_val :: "char \<Rightarrow> int" where
  "digit_val c = of_char c - 48"

definition digits_val :: "string \<Rightarrow> int" where
  "digits_val ds = foldl (\<lambda>a c. 10 * a + digit_val c) 0 ds"

definition is_space :: "char \<Rightarrow> bool" where
  "is_space c = (c \<in> set [CHR 0x09, CHR 0x0A, CHR 0x0B, CHR 0x0C, CHR 0x0D, CHR '' ''])"

definition is_negative :: "string \<Rightarrow> bool" where
  "is_negative t = (case t of [] \<Rightarrow> False | c # _ \<Rightarrow> c = CHR ''-'')"

definition drop_sign :: "string \<Rightarrow> string" where
  "drop_sign t = (case t of [] \<Rightarrow> []
                  | c # r \<Rightarrow> if c = CHR ''-'' \<or> c = CHR ''+'' then r else t)"

definition exponent_part :: "string \<Rightarrow> int" where
  \<comment> \<open>\<open>e\<close> or \<open>E\<close>, an optional sign, at least one digit; anything else is no exponent\<close>
  "exponent_part s =
     (case s of [] \<Rightarrow> 0
      | c # r \<Rightarrow>
          if c = CHR ''e'' \<or> c = CHR ''E''
          then (let ds = takeWhile is_digit (drop_sign r)
                in if is_negative r then - digits_val ds else digits_val ds)
          else 0)"

definition parseFloat :: "string \<Rightarrow> number" where
  "parseFloat s =
     (let t = dropWhile is_space s; u = drop_sign t
      in if take 8 u = ''Infinity'' then (if is_negative t then NegInfinity else Infinity)
         else
           (let ip = takeWhile is_digit u;
                r1 = dropWhile is_digit u;
                dot = (case r1 of [] \<Rightarrow> False | c # _ \<Rightarrow> c = CHR ''.'');
                fp = (if dot then takeWhile is_digit (tl r1) else []);
                r2 = (if dot then dropWhile is_digit (tl r1) else r1)
            in if ip = [] \<and> fp = [] then NaN
               else
                 (let mv = of_int (digits_val (ip @ fp))
                             * 10 powi (exponent_part r2 - int (length fp))
                  in fl (if is_negative t then - mv else mv))))"


section \<open>The score normalizer\<close>

text \<open>
  \<^verbatim>\<open>
  const normalizeScore = (raw: any): number => {
    let num = parseFloat(String(raw).replace('%', ''));
    if (num > 0 && num < 1) num = num * 100;
    if (num > 100) num = num / 100;
    return Math.round(num);
  };
  \<close>
  The argument is a number or a string. \<open>String(n)\<close> of a number has no percent sign
  and \<open>parseFloat\<close> reads it back to the same number, so for a number the first line
  yields the number itself. \<open>replace\<close> with a string pattern removes the first
  occurrence only.
\<close>

datatype score_raw = RawNumber number | RawString string

fun replace_percent :: "string \<Rightarrow> string" where
  "replace_percent [] = []"
| "replace_percent (c # cs) = (if c = CHR ''%'' then cs else c # replace_percent cs)"

definition parse_raw :: "score_raw \<Rightarrow> number" where
  "parse_raw raw = (case raw of RawNumber n \<Rightarrow> n
                    | RawString s \<Rightarrow> parseFloat (replace_percent s))"

definition normalizeScore :: "score_raw \<Rightarrow> number" where
  "normalizeScore raw =
     (let num = parse_raw raw;
          num = (if js_gt num (Num 0) \<and> js_lt num (Num 1) then js_mul num (Num 100) else num);
          num = (if js_gt num (Num 100) then js_div num (Num 100) else num)
      in Math_round num)"

definition is_percent :: "number \<Rightarrow> bool" where
  \<comment> \<open>an integer in \<open>[0, 100]\<close>\<close>
  "is_percent n = (case n of Num q \<Rightarrow> of_int \<lfloor>q\<rfloor> = q \<and> 0 \<le> q \<and> q \<le> 100 | _ \<Rightarrow> False)"

text \<open>
  The algorithm as the specification words it: strip a trailing percent sign, parse;
  a value strictly between 0 and 1 is multiplied by 100, a value above 100 is divided
  by 100; round to the nearest integer. A numeric-like input is a number, or a string
  whose only percent sign, if any, is its last character.
\<close>

definition strip_trailing_percent :: "string \<Rightarrow> string" where
  "strip_trailing_percent s = (if s \<noteq> [] \<and> last s = CHR ''%'' then butlast s else s)"

definition spec_normalize :: "score_raw \<Rightarrow> number" where
  "spec_normalize raw =
     (let v = (case raw of RawNumber n \<Rightarrow> n
               | RawString s \<Rightarrow> parseFloat (strip_trailing_percent s))
      in Math_round (if js_gt v (Num 0) \<and> js_lt v (Num 1) then js_mul v (Num 100)
                     else if js_gt v (Num 100) then js_div v (Num 100)
                     else v))"

definition numeric_like :: "score_raw \<Rightarrow> bool" where
  "numeric_like raw = (case raw of RawNumber n \<Rightarrow> True
                       | RawString s \<Rightarrow> CHR ''%'' \<notin> set (butlast s))"

section \<open>The data model\<close>

text \<open>
  The interfaces the component imports from \<open>./types\<close>. A field declared optional (\<open>imageUrl?\<close>, \<open>type?\<close>,
  \<open>savedDate?\<close>) is an \<open>option\<close>; so is \<open>savings_dh\<close>, which the cooking session
  reads as \<open>savings_dh || 5\<close> for a recipe that came without the metric. The field
  \<open>id\<close> is written \<open>id'\<close>.
\<close>

datatype AppScreen = LANDING | RESULT | SHOPPING | COOKING | COOKBOOK | RECIPE_DETAIL | SUCCESS

datatype SafetyRisk = Risk_None | Risk_Low | Risk_High

datatype Difficulty = Easy | Medium | Chef

datatype SaveType = HACK_IT | SHOP_IT

datatype Mode = HACK | SHOP

record SubstitutionHack =
  missing_item :: string
  suggested_hack :: string
  suggested_quantity :: string
  effectiveness_score :: number
  safety_risk :: SafetyRisk
  reason :: string

record Ingredient =
  ingredient_name :: string
  quantity :: string

record SafetyFactor =
  factor_name :: string
  score :: number
  icon :: string

record Recipe =
  id' :: string
  name :: string
  description :: string
  ingredients :: "Ingredient list"
  already_have :: "Ingredient list"
  need_to_buy :: "Ingredient list"
  estimated_shopping_cost :: number
  steps :: "string list"
  hacks :: "SubstitutionHack list"
  prepTime :: string
  totalTime :: string
  servings :: number
  difficulty :: Difficulty
  isHackRecommended :: bool
  safety_score :: number
  safety_factors :: "SafetyFactor list"
  tips :: "string list"
  savings_dh :: "number option"
  co2_saved_kg :: number
  waste_avoided_g :: number
  imageUrl :: "string option"
  type :: "SaveType option"
  savedDate :: "string option"

record AppState =
  screen :: AppScreen
  city :: string
  currentRecipe :: "Recipe option"
  selectedCookbookRecipe :: "Recipe option"
  scannedIngredients :: "string list"
  wasteSaved :: number
  cookbook :: "Recipe list"
  selectedMode :: "Mode option"

definition freshState :: AppState where
  \<comment> \<open>the state of a session that finds nothing in the browser store\<close>
  "freshState = \<lparr>screen = LANDING, city = [], currentRecipe = None,
                  selectedCookbookRecipe = None, scannedIngredients = [],
                  wasteSaved = Num 0, cookbook = [], selectedMode = None\<rparr>"

section \<open>Event handlers\<close>

text \<open>
  A handler is the state update it performs, as a function from the state before to the
  state after. A handler runs against the state the component last rendered, so the
  \<open>state\<close> of its closure and the \<open>prev\<close> of its updater are one value. What the
  handler takes from outside the state (the date, a service's answer) is an argument.
\<close>

datatype Toast = Already_Saved | Recipe_Saved

definition isRecipeSaved :: "AppState \<Rightarrow> string \<Rightarrow> bool" where
  \<comment> \<open>\<open>if (!recipeId) return false; return state.cookbook.some(r => r.id === recipeId)\<close>\<close>
  "isRecipeSaved s recipeId =
     (if recipeId = [] then False else list_ex (\<lambda>r. id' r = recipeId) (cookbook s))"

definition saveRecipe :: "SaveType \<Rightarrow> string \<Rightarrow> AppState \<Rightarrow> AppState \<times> Toast option" where
  \<comment> \<open>\<open>today\<close> is \<open>new Date().toLocaleDateString()\<close>; the second component is the
      notice shown, if any\<close>
  "saveRecipe ty today s =
     (case currentRecipe s of
        None \<Rightarrow> (s, None)
      | Some current \<Rightarrow>
          if isRecipeSaved s (id' current) then (s, Some Already_Saved)
          else (s\<lparr>cookbook := current\<lparr>type := Some ty, savedDate := Some today\<rparr> # cookbook s\<rparr>,
                Some Recipe_Saved))"

definition removeIngredient :: "int \<Rightarrow> AppState \<Rightarrow> AppState" where
  \<comment> \<open>\<open>prev.scannedIngredients.filter((_, i) => i !== idx)\<close>, for an integer \<open>idx\<close>\<close>
  "removeIngredient idx prev =
     prev\<lparr>scannedIngredients :=
            map fst (filter (\<lambda>(x, i). int i \<noteq> idx)
                       (zip (scannedIngredients prev) [0 ..< length (scannedIngredients prev)]))\<rparr>"

definition savings_of :: "Recipe \<Rightarrow> Mode option \<Rightarrow> number" where
  \<comment> \<open>\<open>state.selectedMode === 'HACK' ? (state.currentRecipe.savings_dh || 5) : 5\<close>\<close>
  "savings_of r m =
     (if m = Some HACK
      then (case savings_dh r of
              None \<Rightarrow> Num 5
            | Some v \<Rightarrow> if truthy_number v then v else Num 5)
      else Num 5)"

definition finishCooking :: "AppState \<Rightarrow> AppState" where
  "finishCooking s =
     (case currentRecipe s of
        None \<Rightarrow> s
      | Some r \<Rightarrow> s\<lparr>wasteSaved := js_add (wasteSaved s) (savings_of r (selectedMode s)),
                     screen := SUCCESS\<rparr>)"

fun finishAll :: "(Recipe \<times> Mode option) list \<Rightarrow> AppState \<Rightarrow> AppState" where
  \<comment> \<open>a run of cooking sessions: each finish action fires with some recipe current and
      some mode selected\<close>
  "finishAll [] s = s"
| "finishAll ((r, m) # rest) s =
     finishAll rest (finishCooking (s\<lparr>currentRecipe := Some r, selectedMode := m\<rparr>))"

definition recipeGenerated :: "Recipe \<Rightarrow> AppState \<Rightarrow> AppState" where
  \<comment> \<open>\<open>generateDecision\<close>, once the service has answered with \<open>recipe\<close>\<close>
  "recipeGenerated recipe prev =
     prev\<lparr>currentRecipe := Some (recipe\<lparr>imageUrl := Some []\<rparr>), screen := RESULT,
          selectedMode := None\<rparr>"

definition imageResolved :: "string \<Rightarrow> string option \<Rightarrow> AppState \<Rightarrow> AppState" where
  \<comment> \<open>the continuation of \<open>generateRecipeImage\<close> for the recipe whose id is \<open>rid\<close>;
      \<open>illustration\<close> is the data URI, or \<open>None\<close> for \<open>null\<close>\<close>
  "imageResolved rid illustration prev =
     (case illustration of
        None \<Rightarrow> prev
      | Some url \<Rightarrow>
          if url = [] then prev
          else (case currentRecipe prev of
                  None \<Rightarrow> prev
                | Some r \<Rightarrow>
                    if id' r = rid then prev\<lparr>currentRecipe := Some (r\<lparr>imageUrl := Some url\<rparr>)\<rparr>
                    else prev))"

section \<open>Persistence\<close>


datatype JSError = TypeError | SyntaxError | QuotaExceededError

definition strip_image :: "Recipe \<Rightarrow> Recipe" where
  "strip_image r = r\<lparr>imageUrl := Some []\<rparr>"

definition stateToSave :: "AppState \<Rightarrow> AppState" where
  "stateToSave s =
     s\<lparr>cookbook := map strip_image (cookbook s),
       currentRecipe := map_option strip_image (currentRecipe s),
       selectedCookbookRecipe := map_option strip_image (selectedCookbookRecipe s)\<rparr>"




section \<open>Sample data\<close>

definition recipeA :: Recipe where
  "recipeA = \<lparr>id' = ''k3x9q2'', name = ''Tagine'', description = ''Slow stew'',
     ingredients = [\<lparr>ingredient_name = ''Carrot'', quantity = ''2''\<rparr>],
     already_have = [\<lparr>ingredient_name = ''Carrot'', quantity = ''2''\<rparr>], need_to_buy = [],
     estimated_shopping_cost = Num 40, steps = [''Chop'', ''Simmer''], hacks = [],
     prepTime = ''10 min'', totalTime = ''50 min'', servings = Num 2, difficulty = Medium,
     isHackRecommended = True, safety_score = Num 85, safety_factors = [], tips = [],
     savings_dh = Some (Num 20), co2_saved_kg = Num 1, waste_avoided_g = Num 300,
     imageUrl = None, type = None, savedDate = None\<rparr>"

definition recipeB :: Recipe where
  "recipeB = recipeA\<lparr>id' := ''p7m2wz'', name := ''Harira'', savings_dh := None\<rparr>"

definition cookingA :: AppState where
  \<comment> \<open>cooking \<open>recipeA\<close> with hacks, 10 DH saved so far\<close>
  "cookingA = freshState\<lparr>screen := COOKING, currentRecipe := Some recipeA,
                         wasteSaved := Num 10, selectedMode := Some HACK\<rparr>"

definition savedA :: AppState where
  \<comment> \<open>\<open>recipeA\<close> generated on a fresh session and saved once\<close>
  "savedA = fst (saveRecipe HACK_IT ''1/2/2026'' (recipeGenerated recipeA freshState))"

definition blankId :: AppState where
  \<comment> \<open>the current recipe has the empty id and is already in the cookbook\<close>
  "blankId = freshState\<lparr>screen := RESULT, currentRecipe := Some (recipeA\<lparr>id' := []\<rparr>),
                        cookbook := [recipeA\<lparr>id' := [], type := Some HACK_IT,
                                             savedDate := Some ''1/2/2026''\<rparr>]\<rparr>"




section \<open>Recipes as run-time values\<close>

text \<open>
  A recipe comes out of \<open>JSON.parse\<close>, so at run time any field may be missing or hold a
  value of another type. The detail view reads it through \<open>safeRecipe\<close>:
  \<^verbatim>\<open>
  const recipe = state.selectedCookbookRecipe || state.currentRecipe;
  if (!recipe) return null;
  const safeRecipe = {
    ...recipe,
    hacks: Array.isArray(recipe.hacks) ? recipe.hacks : [],
    (the same for ingredients, steps, tips, safety_factors, already_have, need_to_buy)
    safety_score: recipe.safety_score || 0,
    difficulty: recipe.difficulty || 'Medium',
    name: recipe.name || 'Untitled Recipe',
    description: recipe.description || '',
    imageUrl: recipe.imageUrl || null,
  };
  \<close>
  Reading a property of \<open>undefined\<close> or \<open>null\<close> throws a TypeError; on an object it gives
  the own property or \<open>undefined\<close>; a boolean, a number, a string or an array has no
  property named like a field of a recipe. An object is the list of its properties, and
  writing a property replaces it in place or appends it.
\<close>

datatype jsval =
    JUndefined | JNull | JBool bool | JNumber number | JString string
  | JArray "jsval list" | JObject "(string \<times> jsval) list"

definition truthy :: "jsval \<Rightarrow> bool" where
  "truthy v = (case v of JUndefined \<Rightarrow> False | JNull \<Rightarrow> False | JBool b \<Rightarrow> b
               | JNumber n \<Rightarrow> truthy_number n | JString s \<Rightarrow> s \<noteq> []
               | JArray xs \<Rightarrow> True | JObject ps \<Rightarrow> True)"

definition js_or :: "jsval \<Rightarrow> jsval \<Rightarrow> jsval" where
  "js_or a b = (if truthy a then a else b)"

definition isArray :: "jsval \<Rightarrow> bool" where
  "isArray v = (case v of JArray xs \<Rightarrow> True | _ \<Rightarrow> False)"

definition get_prop :: "jsval \<Rightarrow> string \<Rightarrow> JSError + jsval" where
  "get_prop v k =
     (case v of
        JUndefined \<Rightarrow> Inl TypeError
      | JNull \<Rightarrow> Inl TypeError
      | JObject ps \<Rightarrow> Inr (case map_of ps k of None \<Rightarrow> JUndefined | Some x \<Rightarrow> x)
      | _ \<Rightarrow> Inr JUndefined)"

definition field :: "jsval \<Rightarrow> string \<Rightarrow> jsval" where
  \<comment> \<open>the property where reading it does not throw\<close>
  "field v k = (case get_prop v k of Inl e \<Rightarrow> JUndefined | Inr x \<Rightarrow> x)"

fun show_nat :: "nat \<Rightarrow> string" where
  "show_nat n = (if n < 10 then [char_of (48 + n)]
                 else show_nat (n div 10) @ [char_of (48 + n mod 10)])"

definition index_props :: "jsval list \<Rightarrow> (string \<times> jsval) list" where
  "index_props xs = zip (map show_nat [0 ..< length xs]) xs"

definition spread :: "jsval \<Rightarrow> (string \<times> jsval) list" where
  \<comment> \<open>the own enumerable properties copied by \<open>...recipe\<close>\<close>
  "spread v = (case v of JObject ps \<Rightarrow> ps
               | JArray xs \<Rightarrow> index_props xs
               | JString s \<Rightarrow> index_props (map (\<lambda>c. JString [c]) s)
               | _ \<Rightarrow> [])"

datatype field_default = Array_or_empty | Or_default jsval

definition safe_fields :: "(string \<times> field_default) list" where
  \<comment> \<open>the properties written after the spread, in the order of the literal\<close>
  "safe_fields =
     [(''hacks'', Array_or_empty), (''ingredients'', Array_or_empty),
      (''steps'', Array_or_empty), (''tips'', Array_or_empty),
      (''safety_factors'', Array_or_empty), (''already_have'', Array_or_empty),
      (''need_to_buy'', Array_or_empty),
      (''safety_score'', Or_default (JNumber (Num 0))),
      (''difficulty'', Or_default (JString ''Medium'')),
      (''name'', Or_default (JString ''Untitled Recipe'')),
      (''description'', Or_default (JString [])),
      (''imageUrl'', Or_default JNull)]"

definition field_value :: "jsval \<Rightarrow> string \<Rightarrow> field_default \<Rightarrow> JSError + jsval" where
  "field_value recipe k d =
     (case get_prop recipe k of
        Inl e \<Rightarrow> Inl e
      | Inr v \<Rightarrow> Inr (case d of
                        Array_or_empty \<Rightarrow> if isArray v then v else JArray []
                      | Or_default dv \<Rightarrow> js_or v dv))"

fun object_literal ::
  "jsval \<Rightarrow> (string \<times> field_default) list \<Rightarrow> (string \<times> jsval) list \<Rightarrow> JSError + (string \<times> jsval) list"
where
  "object_literal recipe [] acc = Inr acc"
| "object_literal recipe ((k, d) # rest) acc =
     (case field_value recipe k d of
        Inl e \<Rightarrow> Inl e
      | Inr v \<Rightarrow> object_literal recipe rest (AList.update k v acc))"

definition safeRecipe :: "jsval \<Rightarrow> JSError + jsval" where
  "safeRecipe recipe =
     (case object_literal recipe safe_fields (spread recipe) of
        Inl e \<Rightarrow> Inl e
      | Inr ps \<Rightarrow> Inr (JObject ps))"

definition detailRecipe :: "jsval \<Rightarrow> jsval \<Rightarrow> JSError + jsval option" where
  \<comment> \<open>what \<open>renderRecipeDetail\<close> renders from: nothing without a recipe, else the
      defaulted recipe\<close>
  "detailRecipe selected current =
     (let recipe = js_or selected current
      in if \<not> truthy recipe then Inr None
         else (case safeRecipe recipe of Inl e \<Rightarrow> Inl e | Inr r \<Rightarrow> Inr (Some r)))"

definition partialRecipe :: jsval where
  \<comment> \<open>a recipe without \<open>hacks\<close> and \<open>safety_score\<close>, and with a string for \<open>tips\<close>\<close>
  "partialRecipe =
     JObject [(''id'', JString ''k3x9q2''), (''name'', JString ''Tagine''),
              (''steps'', JArray [JString ''Chop'', JString ''Simmer'']),
              (''tips'', JString ''Salt late'')]"

section \<open>The screens\<close>

text \<open>
  Beside the application state the component keeps the step of the guided cooking,
  \<open>currentStepIndex\<close>, which is not persisted. \<open>reachable served\<close> is the set of
  component states a session can be in: it starts fresh, and each rule is one place of
  the component that changes the state, guarded by the screen that shows its button. The
  generation service answers with recipes that satisfy \<open>served\<close>. A reload reads back
  what the persistence effect wrote, with the step reset and the counter parsed from its
  own key. The image editor is shown on \<open>RECIPE_DETAIL\<close> only, so of the two branches of
  \<open>handleMagicEdit\<close> the one for that screen is the one that runs; its answer may arrive
  after other events, hence the two states of rule \<open>edited\<close>.
\<close>

record App =
  state :: AppState
  currentStepIndex :: int

definition activeRecipe :: "AppState \<Rightarrow> Recipe option" where
  \<comment> \<open>\<open>state.selectedCookbookRecipe || state.currentRecipe\<close>\<close>
  "activeRecipe s = (case selectedCookbookRecipe s of Some r \<Rightarrow> Some r | None \<Rightarrow> currentRecipe s)"

definition safeRecipe_typed :: "Recipe \<Rightarrow> Recipe" where
  \<comment> \<open>\<open>safeRecipe\<close> on a recipe that has its declared type: the lists are arrays, the
      difficulty is one of its three names, and \<open>description || ''\<close> is the description\<close>
  "safeRecipe_typed r =
     r\<lparr>safety_score := (if truthy_number (safety_score r) then safety_score r else Num 0),
       name := (if name r \<noteq> [] then name r else ''Untitled Recipe''),
       imageUrl := (case imageUrl r of None \<Rightarrow> None
                    | Some url \<Rightarrow> if url = [] then None else Some url)\<rparr>"

fun dedupe :: "'a list \<Rightarrow> 'a list" where
  \<comment> \<open>\<open>Array.from(new Set(xs))\<close>: the first occurrence of each element, in order\<close>
  "dedupe [] = []"
| "dedupe (x # xs) = x # dedupe (filter (\<lambda>y. y \<noteq> x) xs)"

inductive reachable :: "(Recipe \<Rightarrow> bool) \<Rightarrow> App \<Rightarrow> bool"
  for served :: "Recipe \<Rightarrow> bool"
where
  fresh: "reachable served \<lparr>state = freshState, currentStepIndex = 0\<rparr>"
| reload: "reachable served a \<Longrightarrow>
    reachable served \<lparr>state = (stateToSave (state a))\<lparr>wasteSaved := w\<rparr>, currentStepIndex = 0\<rparr>"
| header: "reachable served a \<Longrightarrow> screen (state a) \<noteq> SUCCESS \<Longrightarrow>
    screen (state a) \<noteq> RECIPE_DETAIL \<Longrightarrow>
    reachable served (a\<lparr>state := (state a)\<lparr>screen := LANDING\<rparr>\<rparr>)"
| home: "reachable served a \<Longrightarrow> screen (state a) = SUCCESS \<Longrightarrow>
    currentRecipe (state a) \<noteq> None \<Longrightarrow>
    reachable served (a\<lparr>state := (state a)\<lparr>screen := LANDING\<rparr>\<rparr>)"
| openCookbook: "reachable served a \<Longrightarrow> screen (state a) = LANDING \<Longrightarrow>
    reachable served (a\<lparr>state := (state a)\<lparr>screen := COOKBOOK\<rparr>\<rparr>)"
| typeCity: "reachable served a \<Longrightarrow> screen (state a) = LANDING \<Longrightarrow>
    reachable served (a\<lparr>state := (state a)\<lparr>city := v\<rparr>\<rparr>)"
| addIngredient: "reachable served a \<Longrightarrow> screen (state a) = LANDING \<Longrightarrow> v \<noteq> [] \<Longrightarrow>
    reachable served
      (a\<lparr>state := (state a)\<lparr>scannedIngredients := scannedIngredients (state a) @ [v]\<rparr>\<rparr>)"
| dropIngredient: "reachable served a \<Longrightarrow> screen (state a) = LANDING \<Longrightarrow>
    i < length (scannedIngredients (state a)) \<Longrightarrow>
    reachable served (a\<lparr>state := removeIngredient (int i) (state a)\<rparr>)"
| scanned: "reachable served a \<Longrightarrow>
    reachable served
      (a\<lparr>state := (state a)\<lparr>scannedIngredients := dedupe (scannedIngredients (state a) @ found)\<rparr>\<rparr>)"
| generated: "reachable served a \<Longrightarrow> served recipe \<Longrightarrow>
    reachable served (a\<lparr>state := recipeGenerated recipe (state a)\<rparr>)"
| image: "reachable served a \<Longrightarrow>
    reachable served (a\<lparr>state := imageResolved rid illustration (state a)\<rparr>)"
| edited: "reachable served a0 \<Longrightarrow> screen (state a0) = RECIPE_DETAIL \<Longrightarrow>
    activeRecipe (state a0) = Some r \<Longrightarrow> imageUrl r = Some old \<Longrightarrow> old \<noteq> [] \<Longrightarrow>
    newImage \<noteq> [] \<Longrightarrow> reachable served a \<Longrightarrow>
    reachable served
      (a\<lparr>state := (state a)
            \<lparr>selectedCookbookRecipe := Some (r\<lparr>imageUrl := Some newImage\<rparr>),
             cookbook := map (\<lambda>c. if id' c = id' r then r\<lparr>imageUrl := Some newImage\<rparr> else c)
                           (cookbook (state a))\<rparr>\<rparr>)"
| saved: "reachable served a \<Longrightarrow> screen (state a) = RESULT \<or> screen (state a) = SUCCESS \<Longrightarrow>
    currentRecipe (state a) \<noteq> None \<Longrightarrow>
    reachable served (a\<lparr>state := fst (saveRecipe ty today (state a))\<rparr>)"
| cookWithHacks: "reachable served a \<Longrightarrow> screen (state a) = RESULT \<Longrightarrow>
    currentRecipe (state a) = Some recipe \<Longrightarrow>
    reachable served
      \<lparr>state = (state a)\<lparr>currentRecipe := Some recipe, selectedMode := Some HACK,
                          screen := COOKING\<rparr>,
       currentStepIndex = 0\<rparr>"
| goShopping: "reachable served a \<Longrightarrow> screen (state a) = RESULT \<Longrightarrow>
    currentRecipe (state a) = Some recipe \<Longrightarrow>
    reachable served
      (a\<lparr>state := (state a)\<lparr>currentRecipe := Some recipe, selectedMode := Some SHOP,
                              screen := SHOPPING\<rparr>\<rparr>)"
| selectSaved: "reachable served a \<Longrightarrow> screen (state a) = COOKBOOK \<Longrightarrow>
    recipe \<in> set (cookbook (state a)) \<Longrightarrow>
    reachable served
      (a\<lparr>state := (state a)\<lparr>selectedCookbookRecipe := Some recipe, screen := RECIPE_DETAIL\<rparr>\<rparr>)"
| detailBack: "reachable served a \<Longrightarrow> screen (state a) = RECIPE_DETAIL \<Longrightarrow>
    activeRecipe (state a) \<noteq> None \<Longrightarrow>
    reachable served
      (a\<lparr>state := (state a)\<lparr>screen := (if selectedCookbookRecipe (state a) \<noteq> None
                                          then COOKBOOK else RESULT)\<rparr>\<rparr>)"
| cookNow: "reachable served a \<Longrightarrow> screen (state a) = RECIPE_DETAIL \<Longrightarrow>
    activeRecipe (state a) = Some recipe \<Longrightarrow>
    reachable served
      \<lparr>state = (state a)\<lparr>currentRecipe := Some (safeRecipe_typed recipe), screen := COOKING\<rparr>,
       currentStepIndex = 0\<rparr>"
| shoppingBack: "reachable served a \<Longrightarrow> screen (state a) = SHOPPING \<Longrightarrow>
    reachable served (a\<lparr>state := (state a)\<lparr>screen := RESULT\<rparr>\<rparr>)"
| startCooking: "reachable served a \<Longrightarrow> screen (state a) = SHOPPING \<Longrightarrow>
    reachable served \<lparr>state = (state a)\<lparr>screen := COOKING\<rparr>, currentStepIndex = 0\<rparr>"
| cookingBack: "reachable served a \<Longrightarrow> screen (state a) = COOKING \<Longrightarrow>
    currentRecipe (state a) \<noteq> None \<Longrightarrow>
    reachable served (a\<lparr>state := (state a)\<lparr>screen := RESULT\<rparr>\<rparr>)"
| prevStep: "reachable served a \<Longrightarrow> screen (state a) = COOKING \<Longrightarrow>
    currentRecipe (state a) \<noteq> None \<Longrightarrow> currentStepIndex a \<noteq> 0 \<Longrightarrow>
    reachable served (a\<lparr>currentStepIndex := currentStepIndex a - 1\<rparr>)"
| nextStep: "reachable served a \<Longrightarrow> screen (state a) = COOKING \<Longrightarrow>
    currentRecipe (state a) = Some recipe \<Longrightarrow>
    currentStepIndex a \<noteq> int (length (steps recipe)) - 1 \<Longrightarrow>
    reachable served (a\<lparr>currentStepIndex := currentStepIndex a + 1\<rparr>)"
| finish: "reachable served a \<Longrightarrow> screen (state a) = COOKING \<Longrightarrow>
    currentRecipe (state a) = Some recipe \<Longrightarrow>
    currentStepIndex a = int (length (steps recipe)) - 1 \<Longrightarrow>
    reachable served (a\<lparr>state := finishCooking (state a)\<rparr>)"

definition screen_invariant :: "App \<Rightarrow> bool" where
  "screen_invariant a =
     ((screen (state a) = RECIPE_DETAIL \<longrightarrow>
         currentRecipe (state a) \<noteq> None \<or> selectedCookbookRecipe (state a) \<noteq> None)
      \<and> (screen (state a) = COOKING \<longrightarrow>
           (case currentRecipe (state a) of
              None \<Rightarrow> False
            | Some r \<Rightarrow> 0 \<le> currentStepIndex a \<and> currentStepIndex a < int (length (steps r)))))"

definition has_steps :: "AppState \<Rightarrow> bool" where
  \<comment> \<open>every recipe the state holds has at least one step\<close>
  "has_steps s =
     ((case currentRecipe s of None \<Rightarrow> True | Some r \<Rightarrow> steps r \<noteq> [])
      \<and> (case selectedCookbookRecipe s of None \<Rightarrow> True | Some r \<Rightarrow> steps r \<noteq> [])
      \<and> list_all (\<lambda>r. steps r \<noteq> []) (cookbook s))"

definition recipe_screens :: "AppScreen list" where
  \<comment> \<open>the screens entered only with a current recipe\<close>
  "recipe_screens = [RESULT, SHOPPING, COOKING, SUCCESS]"

definition strong_invariant :: "App \<Rightarrow> bool" where
  \<comment> \<open>what the transitions preserve when every served recipe has a step\<close>
  "strong_invariant a =
     (has_steps (state a)
      \<and> (screen (state a) \<in> set recipe_screens \<longrightarrow> currentRecipe (state a) \<noteq> None)
      \<and> (screen (state a) = RECIPE_DETAIL \<longrightarrow> selectedCookbookRecipe (state a) \<noteq> None)
      \<and> (screen (state a) = COOKING \<longrightarrow>
           (case currentRecipe (state a) of
              None \<Rightarrow> False
            | Some r \<Rightarrow> 0 \<le> currentStepIndex a \<and> currentStepIndex a < int (length (steps r)))))"

definition any_recipe :: "Recipe \<Rightarrow> bool" where
  \<comment> \<open>a service that may answer with any recipe\<close>
  "any_recipe r = True"

definition noSteps :: Recipe where
  "noSteps = recipeA\<lparr>steps := []\<rparr>"

definition stuck :: App where
  \<comment> \<open>\<open>noSteps\<close> generated on a fresh session, then "Cook with Hacks"\<close>
  "stuck = \<lparr>state = (recipeGenerated noSteps freshState)
                      \<lparr>currentRecipe := Some (noSteps\<lparr>imageUrl := Some []\<rparr>),
                       selectedMode := Some HACK, screen := COOKING\<rparr>,
            currentStepIndex = 0\<rparr>"

section \<open>Rounding to binary64\<close>

text \<open>
  Rounding is monotone and leaves a binary64 value alone; the bounds below on scaled
  scores and on the running counter rest on these two facts.
\<close>

lemma ilog2_bounds:
  assumes "0 < q"
  shows "2 powi ilog2 q \<le> q" and "q < 2 powi (ilog2 q + 1)"
proof -
  obtain a b where ab: "quotient_of q = (a, b)" by (cases "quotient_of q")
  have b: "0 < b" using ab quotient_of_denom_pos by blast
  have q: "q = of_int a / of_int b" using ab quotient_of_div by blast
  have a: "0 < a" using assms b q
    by (simp add: zero_less_divide_iff)
  define k where "k = bitlen a - bitlen b"
  have il: "ilog2 q = (if 2 powi k \<le> q then k else k - 1)"
    by (simp add: ilog2_def ab k_def Let_def)
  from bitlen_bounds[OF a] bitlen_bounds[OF b]
  have ba: "2 ^ nat (bitlen a - 1) \<le> a" "a < 2 ^ nat (bitlen a)"
    and bb: "2 ^ nat (bitlen b - 1) \<le> b" "b < 2 ^ nat (bitlen b)" by auto
  have la: "1 \<le> bitlen a" using a by (auto simp: bitlen_alt_def)
  have lb: "1 \<le> bitlen b" using b by (auto simp: bitlen_alt_def)
  have pw: "(2::rat) powi n = of_int (2 ^ nat n)" if "0 \<le> n" for n
    using that by (simp add: power_int_def)
  have ra: "(2::rat) powi (bitlen a - 1) \<le> of_int a" "of_int a < (2::rat) powi (bitlen a)"
    using ba la pw[of "bitlen a - 1"] pw[of "bitlen a"] by (simp_all only: of_int_le_iff of_int_less_iff)
  have rb: "(2::rat) powi (bitlen b - 1) \<le> of_int b" "of_int b < (2::rat) powi (bitlen b)"
    using bb lb pw[of "bitlen b - 1"] pw[of "bitlen b"] by (simp_all only: of_int_le_iff of_int_less_iff)
  have bpos: "(0::rat) < of_int b" using b by simp
  have "(2::rat) powi (k - 1) = 2 powi (bitlen a - 1) / 2 powi bitlen b"
    by (simp add: k_def power_int_diff)
  also have "\<dots> \<le> of_int a / 2 powi bitlen b"
    using ra(1) by (simp add: divide_right_mono)
  also have "\<dots> < of_int a / of_int b"
    using rb(2) bpos a by (simp add: divide_strict_left_mono)
  finally have lo: "(2::rat) powi (k - 1) < q" using q by simp
  have "q = of_int a / of_int b" by (rule q)
  also have "\<dots> < 2 powi bitlen a / of_int b"
    using ra(2) bpos by (simp add: divide_strict_right_mono)
  also have "\<dots> \<le> 2 powi bitlen a / 2 powi (bitlen b - 1)"
    using rb(1) by (intro frac_le) simp_all
  also have "\<dots> = 2 powi (k + 1)"
    by (simp add: k_def power_int_diff power_int_add)
  finally have hi: "q < (2::rat) powi (k + 1)" .
  show "2 powi ilog2 q \<le> q" using il lo by (auto simp: less_imp_le)
  show "q < 2 powi (ilog2 q + 1)" using il hi by (auto simp: not_le)
qed

lemma pow2_less_cancel:
  assumes "(2::rat) powi a < 2 powi b"
  shows "a < b"
proof (rule ccontr)
  assume "\<not> a < b"
  then have "b \<le> a" by simp
  then have "(2::rat) powi b \<le> 2 powi a"
    by (intro power_int_increasing) simp_all
  with assms show False by simp
qed

lemma ilog2_less_iff:
  assumes "0 < q"
  shows "ilog2 q < n \<longleftrightarrow> q < 2 powi n"
proof
  assume "ilog2 q < n"
  then have "ilog2 q + 1 \<le> n" by simp
  then have "(2::rat) powi (ilog2 q + 1) \<le> 2 powi n"
    by (intro power_int_increasing) simp_all
  with ilog2_bounds(2)[OF assms] show "q < 2 powi n" by simp
next
  assume "q < 2 powi n"
  with ilog2_bounds(1)[OF assms] have "(2::rat) powi ilog2 q < 2 powi n" by simp
  then show "ilog2 q < n"
    by (rule pow2_less_cancel)
qed

lemma ilog2_mono:
  assumes "0 < p" "p \<le> q"
  shows "ilog2 p \<le> ilog2 q"
proof -
  have "0 < q" using assms by simp
  have "p < 2 powi (ilog2 q + 1)"
    using ilog2_bounds(2)[OF \<open>0 < q\<close>] assms(2) by simp
  then have "ilog2 p < ilog2 q + 1"
    using ilog2_less_iff[OF assms(1), of "ilog2 q + 1"] by simp
  then show ?thesis by simp
qed

lemma round_even_of_int [simp]: "round_even (of_int n) = n"
  by (simp add: round_even_def)

lemma round_even_le_int:
  assumes "x \<le> of_int n"
  shows "round_even x \<le> n"
proof (cases "x = of_int n")
  case True
  then show ?thesis by simp
next
  case False
  with assms have "x < of_int n" by simp
  then have "\<lfloor>x\<rfloor> < n" by (simp add: floor_less_iff)
  then show ?thesis
    by (auto simp: round_even_def Let_def)
qed

lemma round_even_ge_int:
  assumes "of_int n \<le> x"
  shows "n \<le> round_even x"
proof -
  have "n \<le> \<lfloor>x\<rfloor>" using assms by (simp add: le_floor_iff)
  then show ?thesis
    by (auto simp: round_even_def Let_def)
qed

lemma round_even_mono:
  assumes "x \<le> y"
  shows "round_even x \<le> round_even y"
proof (cases "\<lfloor>x\<rfloor> = \<lfloor>y\<rfloor>")
  case True
  then show ?thesis using assms
    by (auto simp: round_even_def Let_def)
next
  case False
  have "\<lfloor>x\<rfloor> \<le> \<lfloor>y\<rfloor>" using assms by (rule floor_mono)
  with False have "\<lfloor>x\<rfloor> + 1 \<le> \<lfloor>y\<rfloor>" by simp
  moreover have "round_even x \<le> \<lfloor>x\<rfloor> + 1"
    by (auto simp: round_even_def Let_def)
  moreover have "\<lfloor>y\<rfloor> \<le> round_even y"
    by (auto simp: round_even_def Let_def)
  ultimately show ?thesis by linarith
qed

lemma round_even_minus: "round_even (- x) = - round_even x"
proof (cases "x \<in> \<int>")
  case True
  then obtain n where "x = of_int n" by (auto elim: Ints_cases)
  then have "- x = of_int (- n)" by simp
  then show ?thesis using \<open>x = of_int n\<close> by (simp only: round_even_of_int)
next
  case False
  have ne: "x \<noteq> of_int \<lfloor>x\<rfloor>"
    using False by (metis Ints_of_int)
  then have fl: "\<lfloor>- x\<rfloor> = - \<lfloor>x\<rfloor> - 1"
    by (simp add: floor_minus ceiling_altdef)
  show ?thesis
    unfolding round_even_def Let_def fl using ne
    by (auto simp: algebra_simps)
qed

lemma rne_minus: "rne (- q) = - rne q"
  by (simp add: rne_def ulp_exp_def round_even_minus)

lemma rne_nonneg:
  assumes "0 \<le> q"
  shows "0 \<le> rne q"
proof (cases "q = 0")
  case True
  then show ?thesis by (simp add: rne_def)
next
  case False
  have "of_int 0 \<le> q / 2 powi ulp_exp q" using assms by simp
  then have "0 \<le> round_even (q / 2 powi ulp_exp q)" by (rule round_even_ge_int)
  then show ?thesis using False by (simp add: rne_def)
qed

lemma pow2_nat: "0 \<le> n \<Longrightarrow> (2::rat) powi n = of_int (2 ^ nat n)"
  by (simp add: power_int_def)

lemma rne_pos_mono:
  assumes "0 < p" "p \<le> q"
  shows "rne p \<le> rne q"
proof -
  have q: "0 < q" using assms by simp
  let ?ep = "ulp_exp p" and ?eq = "ulp_exp q"
  have le: "?ep \<le> ?eq"
    using ilog2_mono[OF assms] assms q by (simp add: ulp_exp_def)
  show ?thesis
  proof (cases "?ep = ?eq")
    case True
    have "p / 2 powi ?eq \<le> q / 2 powi ?eq"
      using assms(2) by (simp add: divide_right_mono)
    then have "round_even (p / 2 powi ?eq) \<le> round_even (q / 2 powi ?eq)"
      by (rule round_even_mono)
    then have "rat_of_int (round_even (p / 2 powi ?eq)) * 2 powi ?eq
        \<le> rat_of_int (round_even (q / 2 powi ?eq)) * 2 powi ?eq"
      by (intro mult_right_mono) simp_all
    then show ?thesis using assms q True by (simp add: rne_def)
  next
    case False
    with le have lt: "?ep < ?eq" by simp
    define L where "L = ilog2 q"
    have eq: "?eq = L - 52" using lt q by (auto simp: ulp_exp_def L_def max_def split: if_splits)
    have "ilog2 p - 52 \<le> ?ep" using assms by (simp add: ulp_exp_def)
    with lt eq have "ilog2 p < L" by simp
    then have pL: "p < 2 powi L" using ilog2_less_iff[OF assms(1)] by simp
    have qL: "2 powi L \<le> q" using ilog2_bounds(1)[OF q] by (simp add: L_def)
    define K :: int where "K = 2 ^ 52"
    define mq where "mq = round_even (q / 2 powi ?eq)"
    have K: "rat_of_int K * 2 powi ?eq = 2 powi L"
      by (simp add: K_def eq power_int_diff)
    then have "rat_of_int K = 2 powi L / 2 powi ?eq"
      by (simp add: field_simps)
    also have "\<dots> \<le> q / 2 powi ?eq" using qL by (simp add: divide_right_mono)
    finally have "K \<le> mq" unfolding mq_def by (rule round_even_ge_int)
    then have "rat_of_int K \<le> rat_of_int mq" by (simp only: of_int_le_iff)
    then have "rat_of_int K * 2 powi ?eq \<le> rat_of_int mq * 2 powi ?eq"
      by (rule mult_right_mono) simp
    moreover have "rne q = rat_of_int mq * 2 powi ?eq"
      using q by (simp add: rne_def mq_def)
    ultimately have hi: "2 powi L \<le> rne q" using K by simp
    have d: "0 \<le> L - ?ep" using lt eq by simp
    define J :: int where "J = 2 ^ nat (L - ?ep)"
    define mp where "mp = round_even (p / 2 powi ?ep)"
    have J: "rat_of_int J * 2 powi ?ep = 2 powi L"
    proof -
      have "rat_of_int J = 2 powi (L - ?ep)"
        unfolding J_def using pow2_nat[OF d] by simp
      then show ?thesis by (simp flip: power_int_add)
    qed
    have "p / 2 powi ?ep \<le> 2 powi L / 2 powi ?ep" using pL by (simp add: divide_right_mono)
    also have "\<dots> = rat_of_int J"
      using J by (simp add: field_simps)
    finally have "mp \<le> J" unfolding mp_def by (rule round_even_le_int)
    then have "rat_of_int mp \<le> rat_of_int J" by (simp only: of_int_le_iff)
    then have "rat_of_int mp * 2 powi ?ep \<le> rat_of_int J * 2 powi ?ep"
      by (rule mult_right_mono) simp
    moreover have "rne p = rat_of_int mp * 2 powi ?ep"
      using assms by (simp add: rne_def mp_def)
    ultimately have lo: "rne p \<le> 2 powi L" using J by simp
    from lo hi show ?thesis by simp
  qed
qed

lemma rne_mono:
  assumes "p \<le> q"
  shows "rne p \<le> rne q"
proof -
  consider "0 < p" | "p \<le> 0" "0 \<le> q" | "q < 0" by linarith
  then show ?thesis
  proof cases
    case 1
    then show ?thesis using assms by (rule rne_pos_mono)
  next
    case 2
    have "rne (- p) \<ge> 0" using 2 by (intro rne_nonneg) simp
    then have "rne p \<le> 0" by (simp add: rne_minus)
    moreover have "0 \<le> rne q" using 2 by (intro rne_nonneg)
    ultimately show ?thesis by simp
  next
    case 3
    have "rne (- q) \<le> rne (- p)" using 3 assms by (intro rne_pos_mono) simp_all
    then show ?thesis by (simp add: rne_minus)
  qed
qed

lemma rne_repr_strict:
  assumes e: "- 1074 \<le> e" and m: "\<bar>m\<bar> < 2 ^ 53"
  shows "rne (rat_of_int m * 2 powi e) = rat_of_int m * 2 powi e"
proof (cases "m = 0")
  case True
  then show ?thesis by (simp add: rne_def)
next
  case False
  define d where "d = rat_of_int m * 2 powi e"
  have d0: "d \<noteq> 0" using False by (simp add: d_def)
  then have dpos: "0 < \<bar>d\<bar>" by simp
  have "\<bar>d\<bar> = rat_of_int \<bar>m\<bar> * 2 powi e"
    by (simp add: d_def abs_mult)
  also have "\<dots> < rat_of_int (2 ^ 53) * 2 powi e"
    using m by (intro mult_strict_right_mono) (simp_all only: of_int_less_iff, simp)
  also have "\<dots> = 2 powi (e + 53)"
    by (simp add: power_int_add)
  finally have "ilog2 \<bar>d\<bar> < e + 53"
    using ilog2_less_iff[OF dpos] by simp
  then have le: "ulp_exp d \<le> e" using e by (simp add: ulp_exp_def)
  then have k: "0 \<le> e - ulp_exp d" by simp
  have "d / 2 powi ulp_exp d = rat_of_int m * 2 powi (e - ulp_exp d)"
    by (simp add: d_def power_int_diff)
  also have "\<dots> = rat_of_int (m * 2 ^ nat (e - ulp_exp d))"
    using pow2_nat[OF k] by simp
  finally have "round_even (d / 2 powi ulp_exp d) = m * 2 ^ nat (e - ulp_exp d)"
    by (simp only: round_even_of_int)
  then have "rne d = rat_of_int (m * 2 ^ nat (e - ulp_exp d)) * 2 powi ulp_exp d"
    using d0 by (simp add: rne_def)
  also have "\<dots> = rat_of_int m * (2 powi (e - ulp_exp d) * 2 powi ulp_exp d)"
    using pow2_nat[OF k] by simp
  also have "\<dots> = d"
    by (simp add: d_def flip: power_int_add)
  finally show ?thesis by (simp add: d_def)
qed

lemma rne_repr:
  assumes e: "- 1074 \<le> e" and m: "\<bar>m\<bar> \<le> 2 ^ 53"
  shows "rne (rat_of_int m * 2 powi e) = rat_of_int m * 2 powi e"
proof (cases "\<bar>m\<bar> < 2 ^ 53")
  case True
  with e show ?thesis by (rule rne_repr_strict)
next
  case False
  with m have "\<bar>m\<bar> = 2 ^ 53" by simp
  then obtain s :: int where s: "m = s * 2 ^ 53" "\<bar>s\<bar> = 1"
    by (cases "0 \<le> m") (auto simp: abs_if intro: that[of 1] that[of "- 1"])
  have "rat_of_int m * 2 powi e = rat_of_int (s * 2 ^ 52) * 2 powi (e + 1)"
    by (simp add: s power_int_add)
  moreover have "rne (rat_of_int (s * 2 ^ 52) * 2 powi (e + 1)) = rat_of_int (s * 2 ^ 52) * 2 powi (e + 1)"
    using e s(2) by (intro rne_repr_strict) (simp_all add: abs_mult)
  ultimately show ?thesis by simp
qed

lemma rne_idem [simp]: "rne (rne x) = rne x"
proof (cases "x = 0")
  case True
  then show ?thesis by (simp add: rne_def)
next
  case False
  define e where "e = ulp_exp x"
  define m where "m = round_even (x / 2 powi e)"
  have e: "- 1074 \<le> e" "ilog2 \<bar>x\<bar> - 52 \<le> e" by (simp_all add: e_def ulp_exp_def)
  have xpos: "0 < \<bar>x\<bar>" using False by simp
  have "\<bar>x\<bar> < 2 powi (ilog2 \<bar>x\<bar> + 1)" by (rule ilog2_bounds(2)[OF xpos])
  also have "\<dots> \<le> 2 powi (e + 53)"
    using e(2) by (intro power_int_increasing) simp_all
  finally have ax: "\<bar>x\<bar> / 2 powi e < rat_of_int (2 ^ 53)"
    by (simp add: power_int_add field_simps)
  have "x / 2 powi e \<le> \<bar>x\<bar> / 2 powi e" by (simp add: divide_right_mono)
  with ax have "x / 2 powi e \<le> rat_of_int (2 ^ 53)" by linarith
  then have up: "m \<le> 2 ^ 53" unfolding m_def by (rule round_even_le_int)
  have "(- \<bar>x\<bar>) / 2 powi e \<le> x / 2 powi e"
    by (intro divide_right_mono) simp_all
  with ax have "rat_of_int (- (2 ^ 53)) \<le> x / 2 powi e" by simp
  then have lo: "- (2 ^ 53) \<le> m" unfolding m_def by (rule round_even_ge_int)
  have "rne x = rat_of_int m * 2 powi e"
    using False by (simp add: rne_def m_def e_def)
  moreover have "rne (rat_of_int m * 2 powi e) = rat_of_int m * 2 powi e"
    using e(1) up lo by (intro rne_repr) simp_all
  ultimately show ?thesis by simp
qed

section \<open>Properties of the score normalizer\<close>

lemma rne_fix_num: "rne 0 = 0" "rne 1 = 1" "rne 100 = 100"
  by code_simp+

lemma rne_between:
  assumes "a \<le> q" "q \<le> b" "rne a = a" "rne b = b"
  shows "a \<le> rne q" "rne q \<le> b"
  using rne_mono[OF assms(1)] rne_mono[OF assms(2)] assms(3,4) by simp_all

lemma fl_finite:
  assumes "\<bar>rne q\<bar> < 2 ^ 1024"
  shows "fl q = Num (rne q)"
proof (cases "rne q = 0")
  case True
  then show ?thesis by (simp add: fl_def)
next
  case False
  then have "0 < \<bar>rne q\<bar>" by simp
  from ilog2_less_iff[OF this, of 1024] assms have "ilog2 \<bar>rne q\<bar> < 1024" by simp
  then show ?thesis by (simp add: fl_def)
qed

lemma fl_between:
  assumes "a \<le> q" "q \<le> b" "rne a = a" "rne b = b" "- (2 ^ 1024) < a" "b < 2 ^ 1024"
  shows "fl q = Num (rne q)"
proof -
  have "- (2 ^ 1024) < rne q" "rne q < 2 ^ 1024"
    using rne_between[OF assms(1-4)] assms(5,6) by linarith+
  then have "\<bar>rne q\<bar> < 2 ^ 1024" by (simp add: abs_less_iff)
  then show ?thesis by (rule fl_finite)
qed

lemma replace_percent_trailing:
  "CHR ''%'' \<notin> set (butlast s) \<Longrightarrow> replace_percent s = strip_trailing_percent s"
proof (induction s)
  case Nil
  then show ?case by (simp add: strip_trailing_percent_def)
next
  case (Cons c cs)
  show ?case
  proof (cases "cs = []")
    case True
    then show ?thesis by (simp add: strip_trailing_percent_def)
  next
    case False
    with Cons.prems have c: "c \<noteq> CHR ''%''" and "CHR ''%'' \<notin> set (butlast cs)" by auto
    with Cons.IH have "replace_percent cs = strip_trailing_percent cs" by simp
    with c False show ?thesis by (simp add: strip_trailing_percent_def)
  qed
qed

lemma scaled_fraction:
  assumes "0 < v" "v < 1"
  shows "js_mul (Num v) (Num 100) = Num (rne (v * 100))" "0 \<le> rne (v * 100)" "rne (v * 100) \<le> 100"
proof -
  have b: "0 \<le> v * 100" "v * 100 \<le> 100" using assms by simp_all
  show "js_mul (Num v) (Num 100) = Num (rne (v * 100))"
    using fl_between[OF b rne_fix_num(1) rne_fix_num(3)] by (simp add: js_mul_def)
  show "0 \<le> rne (v * 100)" "rne (v * 100) \<le> 100"
    using rne_between[OF b rne_fix_num(1) rne_fix_num(3)] by simp_all
qed

lemma normalizeScore_cases:
  "normalizeScore raw =
     Math_round (if js_gt (parse_raw raw) (Num 0) \<and> js_lt (parse_raw raw) (Num 1)
                 then js_mul (parse_raw raw) (Num 100)
                 else if js_gt (parse_raw raw) (Num 100) then js_div (parse_raw raw) (Num 100)
                 else parse_raw raw)"
proof (cases "parse_raw raw")
  case (Num v)
  show ?thesis
  proof (cases "0 < v \<and> v < 1")
    case True
    then show ?thesis using scaled_fraction[of v] Num
      by (simp add: normalizeScore_def js_gt_def)
  next
    case False
    then show ?thesis using Num by (auto simp: normalizeScore_def js_gt_def)
  qed
qed (simp_all add: normalizeScore_def js_gt_def)

text \<open>
  C6. \<open>normalizeScore\<close> computes the algorithm of the specification on every
  numeric-like input (strip a trailing percent sign, multiply a value strictly between 0
  and 1 by 100, divide a value above 100 by 100, round to the nearest integer), and
  gives 85 for 85, 85 for 0.85, 85 for 8500, 72 for "72%" and 2 for 150. The literal
  \<open>0.85\<close> is the binary64 value nearest to 85/100.
\<close>

theorem normalizeScore_algorithm:
  "(numeric_like raw \<longrightarrow> normalizeScore raw = spec_normalize raw)
   \<and> normalizeScore (RawNumber (Num 85)) = Num 85
   \<and> normalizeScore (RawNumber (fl (85 / 100))) = Num 85
   \<and> normalizeScore (RawNumber (Num 8500)) = Num 85
   \<and> normalizeScore (RawString ''72%'') = Num 72
   \<and> normalizeScore (RawNumber (Num 150)) = Num 2"
proof -
  have "normalizeScore raw = spec_normalize raw" if "numeric_like raw"
  proof -
    have "parse_raw raw = (case raw of RawNumber n \<Rightarrow> n
                           | RawString s \<Rightarrow> parseFloat (strip_trailing_percent s))"
      using that by (cases raw) (simp_all add: parse_raw_def numeric_like_def replace_percent_trailing)
    then show ?thesis
      by (simp add: normalizeScore_cases spec_normalize_def Let_def)
  qed
  moreover have "normalizeScore (RawNumber (Num 85)) = Num 85" by code_simp
  moreover have "normalizeScore (RawNumber (fl (85 / 100))) = Num 85" by code_simp
  moreover have "normalizeScore (RawNumber (Num 8500)) = Num 85" by code_simp
  moreover have "normalizeScore (RawString ''72%'') = Num 72" by code_simp
  moreover have "normalizeScore (RawNumber (Num 150)) = Num 2" by code_simp
  ultimately show ?thesis by blast
qed

theorem normalizeScore_algorithm_witness:
  "numeric_like (RawString ''72%'')
   \<and> normalizeScore (RawString ''72%'') = spec_normalize (RawString ''72%'')"
  using normalizeScore_algorithm[of "RawString ''72%''"]
  by (simp add: numeric_like_def)

subsection \<open>Range of the normalized score\<close>

lemma Math_round_percent:
  assumes "0 \<le> r" "r \<le> 100"
  shows "is_percent (Math_round (Num r))"
proof -
  have "0 \<le> \<lfloor>r + 1/2\<rfloor>" using assms by simp
  moreover have "\<lfloor>r + 1/2\<rfloor> \<le> 100" using assms by (simp add: floor_le_iff)
  ultimately have "rat_of_int 0 \<le> rat_of_int \<lfloor>r + 1/2\<rfloor>"
    "rat_of_int \<lfloor>r + 1/2\<rfloor> \<le> rat_of_int 100"
    by (simp_all only: of_int_le_iff)
  then show ?thesis by (simp add: is_percent_def Math_round_def)
qed

text \<open>
  C1, amended. Whenever the parsed value of the input lies in \<open>[0, 10000]\<close>,
  \<open>normalizeScore\<close> returns an integer in \<open>[0, 100]\<close>.
\<close>

theorem normalizeScore_range:
  assumes "parse_raw raw = Num v" "0 \<le> v" "v \<le> 10000"
  shows "is_percent (normalizeScore raw)"
proof -
  consider "v = 0" | "0 < v" "v < 1" | "1 \<le> v" "v \<le> 100" | "100 < v" using assms(2) by linarith
  then show ?thesis
  proof cases
    case 1
    then show ?thesis using assms(1) Math_round_percent[of 0]
      by (simp add: normalizeScore_def js_gt_def)
  next
    case 2
    then show ?thesis using assms(1) scaled_fraction[OF 2] Math_round_percent[of "rne (v * 100)"]
      by (simp add: normalizeScore_def js_gt_def)
  next
    case 3
    then show ?thesis using assms(1) Math_round_percent[of v]
      by (simp add: normalizeScore_def js_gt_def)
  next
    case 4
    have b: "1 \<le> v / 100" "v / 100 \<le> 100" using 4 assms(3) by simp_all
    have "js_div (Num v) (Num 100) = Num (rne (v / 100))"
      using fl_between[OF b rne_fix_num(2) rne_fix_num(3)] by (simp add: js_div_def)
    moreover have "0 \<le> rne (v / 100)" "rne (v / 100) \<le> 100"
      using rne_between[OF b rne_fix_num(2) rne_fix_num(3)] by simp_all
    ultimately show ?thesis using assms(1) 4 Math_round_percent[of "rne (v / 100)"]
      by (simp add: normalizeScore_def js_gt_def)
  qed
qed

theorem normalizeScore_range_witness:
  "parse_raw (RawString ''8500'') = Num 8500 \<and> (0::rat) \<le> 8500 \<and> (8500::rat) \<le> 10000
   \<and> is_percent (normalizeScore (RawString ''8500''))"
proof -
  have p: "parse_raw (RawString ''8500'') = Num 8500" by code_simp
  show ?thesis using p normalizeScore_range[OF p] by simp
qed

text \<open>
  Outside that interval the result leaves \<open>[0, 100]\<close>: 20000 is normalized to 200 and
  "-5" to -5.
\<close>

theorem normalizeScore_range_counterexample:
  "\<not> is_percent (normalizeScore (RawNumber (Num 20000)))
   \<and> \<not> is_percent (normalizeScore (RawString ''-5''))"
  by code_simp

section \<open>Pantry editing\<close>

lemma filter_index:
  "map fst (filter (\<lambda>(x, i). int i \<noteq> idx) (zip xs [n ..< n + length xs]))
   = (if int n \<le> idx \<and> idx < int (n + length xs)
      then take (nat idx - n) xs @ drop (nat idx - n + 1) xs else xs)"
proof (induction xs arbitrary: n)
  case Nil
  then show ?case by simp
next
  case (Cons x xs)
  have upt: "[n ..< n + length (x # xs)] = n # [Suc n ..< Suc n + length xs]"
    using upt_conv_Cons[of n "n + length (x # xs)"] by simp
  show ?case
  proof (cases "int n = idx")
    case True
    then have "nat idx = n" by auto
    with True Cons.IH[of "Suc n"] show ?thesis
      unfolding upt by simp
  next
    case False
    show ?thesis
    proof (cases "int n < idx \<and> idx < int (n + length (x # xs))")
      case True
      then have "nat idx - n = Suc (nat idx - Suc n)" by auto
      with True False Cons.IH[of "Suc n"] show ?thesis
        unfolding upt by auto
    next
      case F2: False
      with False Cons.IH[of "Suc n"] show ?thesis
        unfolding upt by auto
    qed
  qed
qed

text \<open>
  C10. \<open>removeIngredient\<close> with an index outside \<open>[0, length)\<close> leaves the pantry list
  (and the whole state) unchanged; with an index inside the range it removes exactly the
  element at that position and keeps the others in order. It is a total function: no
  index makes it fail.
\<close>

theorem removeIngredient_position:
  "(idx < 0 \<or> int (length (scannedIngredients s)) \<le> idx \<longrightarrow> removeIngredient idx s = s)
   \<and> (0 \<le> idx \<and> idx < int (length (scannedIngredients s)) \<longrightarrow>
        removeIngredient idx s =
          s\<lparr>scannedIngredients := take (nat idx) (scannedIngredients s)
                                    @ drop (nat idx + 1) (scannedIngredients s)\<rparr>)"
  using filter_index[of idx "scannedIngredients s" 0]
  by (auto simp: removeIngredient_def)

theorem removeIngredient_position_witness:
  "((5::int) < 0 \<or> int (length (scannedIngredients (freshState\<lparr>scannedIngredients := [''egg'', ''rice'', ''leek'']\<rparr>))) \<le> 5)
   \<and> removeIngredient 5 (freshState\<lparr>scannedIngredients := [''egg'', ''rice'', ''leek'']\<rparr>)
       = freshState\<lparr>scannedIngredients := [''egg'', ''rice'', ''leek'']\<rparr>
   \<and> (0::int) \<le> 1 \<and> 1 < int (length (scannedIngredients (freshState\<lparr>scannedIngredients := [''egg'', ''rice'', ''leek'']\<rparr>)))
   \<and> removeIngredient 1 (freshState\<lparr>scannedIngredients := [''egg'', ''rice'', ''leek'']\<rparr>)
       = freshState\<lparr>scannedIngredients := [''egg'', ''leek'']\<rparr>"
  using removeIngredient_position[of 5 "freshState\<lparr>scannedIngredients := [''egg'', ''rice'', ''leek'']\<rparr>"]
        removeIngredient_position[of 1 "freshState\<lparr>scannedIngredients := [''egg'', ''rice'', ''leek'']\<rparr>"]
  by (simp add: freshState_def)

section \<open>Actions without a current recipe\<close>

text \<open>
  C9. With no current recipe, \<open>saveRecipe\<close> and \<open>finishCooking\<close> return the state they
  were given: no cookbook entry, no increment of the counter, no change of screen, and
  no notice.
\<close>

theorem no_recipe_no_change:
  "currentRecipe s = None \<Longrightarrow> saveRecipe ty today s = (s, None) \<and> finishCooking s = s"
  by (simp add: saveRecipe_def finishCooking_def)

theorem no_recipe_no_change_witness:
  "currentRecipe freshState = None
   \<and> saveRecipe HACK_IT ''1/2/2026'' freshState = (freshState, None)
   \<and> finishCooking freshState = freshState"
proof -
  have h: "currentRecipe freshState = None" by (simp add: freshState_def)
  show ?thesis using h no_recipe_no_change[OF h] by simp
qed

section \<open>The background image\<close>

text \<open>
  C4. The image that arrives for the recipe with id \<open>X\<close> is applied only when there is a
  current recipe and its id is \<open>X\<close>, and then nothing but the \<open>imageUrl\<close> of the current
  recipe changes; otherwise the state is returned as it was. In particular the image of
  a recipe \<open>A\<close> that resolves after a recipe \<open>B\<close> with another id has been generated
  leaves the state alone.
\<close>

theorem imageResolved_frame:
  "(currentRecipe s = None \<longrightarrow> imageResolved X ill s = s)
   \<and> (\<forall>r. currentRecipe s = Some r \<and> id' r \<noteq> X \<longrightarrow> imageResolved X ill s = s)
   \<and> (\<forall>r. currentRecipe s = Some r \<and> id' r = X \<longrightarrow>
         imageResolved X ill s =
           s\<lparr>currentRecipe :=
               Some (r\<lparr>imageUrl := (case ill of None \<Rightarrow> imageUrl r
                                     | Some url \<Rightarrow> if url = [] then imageUrl r else Some url)\<rparr>)\<rparr>)
   \<and> (id' A \<noteq> id' B \<longrightarrow>
         imageResolved (id' A) ill (recipeGenerated B (recipeGenerated A s))
           = recipeGenerated B (recipeGenerated A s))"
  by (auto simp: imageResolved_def recipeGenerated_def split: option.splits)

theorem imageResolved_frame_witness:
  "currentRecipe freshState = None
   \<and> imageResolved ''k3x9q2'' (Some ''data:image/png;base64,iVBOR'') freshState = freshState
   \<and> currentRecipe (recipeGenerated recipeA freshState) = Some (recipeA\<lparr>imageUrl := Some []\<rparr>)
   \<and> id' (recipeA\<lparr>imageUrl := Some []\<rparr>) = ''k3x9q2''
   \<and> imageResolved ''k3x9q2'' (Some ''data:image/png;base64,iVBOR'') (recipeGenerated recipeA freshState)
       = (recipeGenerated recipeA freshState)
           \<lparr>currentRecipe := Some (recipeA\<lparr>imageUrl := Some ''data:image/png;base64,iVBOR''\<rparr>)\<rparr>
   \<and> id' (recipeA\<lparr>imageUrl := Some []\<rparr>) \<noteq> ''p7m2wz''
   \<and> imageResolved ''p7m2wz'' (Some ''data:image/png;base64,iVBOR'') (recipeGenerated recipeA freshState)
       = recipeGenerated recipeA freshState
   \<and> id' recipeA \<noteq> id' recipeB
   \<and> imageResolved (id' recipeA) (Some ''data:image/png;base64,iVBOR'')
         (recipeGenerated recipeB (recipeGenerated recipeA freshState))
       = recipeGenerated recipeB (recipeGenerated recipeA freshState)"
  using imageResolved_frame[of freshState "''k3x9q2''" "Some ''data:image/png;base64,iVBOR''" recipeA recipeB]
        imageResolved_frame[of "recipeGenerated recipeA freshState" "''k3x9q2''"
                               "Some ''data:image/png;base64,iVBOR''" recipeA recipeB]
        imageResolved_frame[of "recipeGenerated recipeA freshState" "''p7m2wz''"
                               "Some ''data:image/png;base64,iVBOR''" recipeA recipeB]
  by (simp add: freshState_def recipeGenerated_def recipeA_def recipeB_def)


section \<open>Saving to the cookbook\<close>

lemma isRecipeSaved_iff:
  "isRecipeSaved s i \<longleftrightarrow> i \<noteq> [] \<and> i \<in> set (map id' (cookbook s))"
  by (auto simp: isRecipeSaved_def list_ex_iff)

lemma saveRecipe_keeps_ids:
  assumes "distinct (filter (\<lambda>i. i \<noteq> []) (map id' (cookbook s)))"
  shows "distinct (filter (\<lambda>i. i \<noteq> []) (map id' (cookbook (fst (saveRecipe ty today s)))))"
proof (cases "currentRecipe s")
  case None
  with assms show ?thesis by (simp add: saveRecipe_def)
next
  case (Some r)
  with assms show ?thesis by (auto simp: saveRecipe_def isRecipeSaved_iff)
qed

lemma edited_keeps_ids:
  "id' \<circ> (\<lambda>c. if id' c = id' r then r\<lparr>imageUrl := u\<rparr> else c) = id'"
  by (simp add: fun_eq_iff)

lemma cookbook_ids_reachable:
  "reachable served a \<Longrightarrow> distinct (filter (\<lambda>i. i \<noteq> []) (map id' (cookbook (state a))))"
proof (induction rule: reachable.induct)
  case fresh
  show ?case by (simp add: freshState_def)
next
  case (reload a w)
  have "id' \<circ> strip_image = id'"
    by (simp add: fun_eq_iff strip_image_def)
  with reload show ?case by (simp add: stateToSave_def)
next
  case (dropIngredient a i)
  then show ?case by (simp add: removeIngredient_def)
next
  case (generated a recipe)
  then show ?case by (simp add: recipeGenerated_def)
next
  case (image a rid illustration)
  then show ?case by (simp add: imageResolved_def split: option.splits)
next
  case (edited a0 r old newImage a)
  then show ?case by (simp add: edited_keeps_ids)
next
  case (saved a ty today)
  then show ?case by (simp add: saveRecipe_keeps_ids)
next
  case (finish a recipe)
  then show ?case by (simp add: finishCooking_def)
qed simp_all

text \<open>
  C3, amended. When the id of the current recipe is not empty and already occurs in the
  cookbook, \<open>saveRecipe\<close> returns the state unchanged together with the notice
  "Already Saved". So a second save of a recipe with a non-empty id leaves the length of
  the cookbook as the first save left it, and in every state reachable from a fresh
  session the cookbook never contains two entries with the same non-empty id.
\<close>

theorem saveRecipe_idempotent:
  "(currentRecipe s = Some r \<and> id' r \<noteq> [] \<and> id' r \<in> set (map id' (cookbook s)) \<longrightarrow>
        saveRecipe ty today s = (s, Some Already_Saved))
   \<and> (currentRecipe s = Some r \<and> id' r \<noteq> [] \<longrightarrow>
        length (cookbook (fst (saveRecipe ty2 today2 (fst (saveRecipe ty today s)))))
          = length (cookbook (fst (saveRecipe ty today s))))
   \<and> (reachable served a \<longrightarrow>
        distinct (filter (\<lambda>i. i \<noteq> []) (map id' (cookbook (state a)))))"
proof (intro conjI impI)
  assume "currentRecipe s = Some r \<and> id' r \<noteq> [] \<and> id' r \<in> set (map id' (cookbook s))"
  then show "saveRecipe ty today s = (s, Some Already_Saved)"
    by (simp add: saveRecipe_def isRecipeSaved_iff)
next
  assume a: "currentRecipe s = Some r \<and> id' r \<noteq> []"
  show "length (cookbook (fst (saveRecipe ty2 today2 (fst (saveRecipe ty today s)))))
          = length (cookbook (fst (saveRecipe ty today s)))"
  proof (cases "isRecipeSaved s (id' r)")
    case True
    with a show ?thesis by (simp add: saveRecipe_def)
  next
    case False
    with a show ?thesis by (simp add: saveRecipe_def isRecipeSaved_iff)
  qed
next
  assume "reachable served a"
  then show "distinct (filter (\<lambda>i. i \<noteq> []) (map id' (cookbook (state a))))"
    by (rule cookbook_ids_reachable)
qed

lemma savedA_eq:
  "savedA = freshState\<lparr>currentRecipe := Some (recipeA\<lparr>imageUrl := Some []\<rparr>), screen := RESULT,
      cookbook := [recipeA\<lparr>imageUrl := Some [], type := Some HACK_IT, savedDate := Some ''1/2/2026''\<rparr>]\<rparr>"
  by (simp add: savedA_def saveRecipe_def recipeGenerated_def isRecipeSaved_def freshState_def recipeA_def)

lemma savedA_reachable: "reachable any_recipe \<lparr>state = savedA, currentStepIndex = 0\<rparr>"
proof -
  have r0: "reachable any_recipe \<lparr>state = freshState, currentStepIndex = 0\<rparr>"
    by (rule reachable.fresh)
  have "any_recipe recipeA" by (simp add: any_recipe_def)
  from reachable.generated[OF r0 this]
  have r1: "reachable any_recipe \<lparr>state = recipeGenerated recipeA freshState, currentStepIndex = 0\<rparr>"
    by simp
  have "screen (recipeGenerated recipeA freshState) = RESULT"
    and "currentRecipe (recipeGenerated recipeA freshState) \<noteq> None"
    by (simp_all add: recipeGenerated_def)
  with reachable.saved[OF r1, of HACK_IT "''1/2/2026''"] show ?thesis
    by (simp add: savedA_def)
qed

theorem saveRecipe_idempotent_witness:
  "currentRecipe savedA = Some (recipeA\<lparr>imageUrl := Some []\<rparr>)
   \<and> id' (recipeA\<lparr>imageUrl := Some []\<rparr>) \<noteq> []
   \<and> id' (recipeA\<lparr>imageUrl := Some []\<rparr>) \<in> set (map id' (cookbook savedA))
   \<and> saveRecipe SHOP_IT ''3/2/2026'' savedA = (savedA, Some Already_Saved)
   \<and> length (cookbook (fst (saveRecipe SHOP_IT ''3/2/2026'' (fst (saveRecipe HACK_IT ''1/2/2026'' savedA)))))
       = length (cookbook (fst (saveRecipe HACK_IT ''1/2/2026'' savedA)))
   \<and> reachable any_recipe \<lparr>state = savedA, currentStepIndex = 0\<rparr>
   \<and> distinct (filter (\<lambda>i. i \<noteq> [])
                 (map id' (cookbook (state \<lparr>state = savedA, currentStepIndex = 0\<rparr>))))"
proof -
  have c: "currentRecipe savedA = Some (recipeA\<lparr>imageUrl := Some []\<rparr>)"
    by (simp add: savedA_eq)
  have i: "id' (recipeA\<lparr>imageUrl := Some []\<rparr>) \<noteq> []" by (simp add: recipeA_def)
  have m: "id' (recipeA\<lparr>imageUrl := Some []\<rparr>) \<in> set (map id' (cookbook savedA))"
    by (simp add: savedA_eq)
  note T = saveRecipe_idempotent[of savedA "recipeA\<lparr>imageUrl := Some []\<rparr>" SHOP_IT
      "''3/2/2026''" SHOP_IT "''3/2/2026''" any_recipe "\<lparr>state = savedA, currentStepIndex = 0\<rparr>"]
  note U = saveRecipe_idempotent[of savedA "recipeA\<lparr>imageUrl := Some []\<rparr>" HACK_IT
      "''1/2/2026''" SHOP_IT "''3/2/2026''" any_recipe "\<lparr>state = savedA, currentStepIndex = 0\<rparr>"]
  have 1: "saveRecipe SHOP_IT ''3/2/2026'' savedA = (savedA, Some Already_Saved)"
    using T[THEN conjunct1] c i m by blast
  have 2: "length (cookbook (fst (saveRecipe SHOP_IT ''3/2/2026'' (fst (saveRecipe HACK_IT ''1/2/2026'' savedA)))))
       = length (cookbook (fst (saveRecipe HACK_IT ''1/2/2026'' savedA)))"
    using U[THEN conjunct2, THEN conjunct1] c i by blast
  have 3: "distinct (filter (\<lambda>i. i \<noteq> [])
                 (map id' (cookbook (state \<lparr>state = savedA, currentStepIndex = 0\<rparr>))))"
    using T[THEN conjunct2, THEN conjunct2] savedA_reachable by blast
  from c i m 1 2 savedA_reachable 3 show ?thesis by (intro conjI)
qed

text \<open>
  \<open>isRecipeSaved\<close> answers "not saved" for an empty id without looking at the cookbook,
  so a recipe whose id is the empty string is saved again: the state changes and the
  cookbook holds two entries with the same id.
\<close>

theorem saveRecipe_idempotent_counterexample:
  "currentRecipe blankId = Some (recipeA\<lparr>id' := []\<rparr>)
   \<and> id' (recipeA\<lparr>id' := []\<rparr>) \<in> set (map id' (cookbook blankId))
   \<and> fst (saveRecipe HACK_IT ''3/2/2026'' blankId) \<noteq> blankId
   \<and> length (cookbook (fst (saveRecipe HACK_IT ''3/2/2026'' blankId))) = 2
   \<and> map id' (cookbook (fst (saveRecipe HACK_IT ''3/2/2026'' blankId))) = [[], []]"
  by (simp add: blankId_def saveRecipe_def isRecipeSaved_def freshState_def)

section \<open>The lifetime counter\<close>

lemma is_double_bound:
  assumes "is_double a"
  shows "\<bar>a\<bar> < 2 ^ 1024"
proof (cases "a = 0")
  case True
  then show ?thesis by simp
next
  case False
  then have "0 < \<bar>a\<bar>" by simp
  from ilog2_less_iff[OF this, of 1024] assms False show ?thesis
    by (simp add: is_double_def)
qed

lemma js_add_nonneg:
  assumes "is_double a" "0 \<le> b"
  shows "js_add (Num a) (Num b) = Infinity
         \<or> (\<exists>r. js_add (Num a) (Num b) = Num r \<and> a \<le> r \<and> is_double r)"
proof -
  define r where "r = rne (a + b)"
  have "rne a \<le> rne (a + b)" using assms(2) by (intro rne_mono) simp
  then have ar: "a \<le> r" using assms(1) by (simp add: is_double_def r_def)
  show ?thesis
  proof (cases "r \<noteq> 0 \<and> 1024 \<le> ilog2 \<bar>r\<bar>")
    case True
    have "0 < r"
    proof (rule ccontr)
      assume "\<not> 0 < r"
      with True have neg: "r < 0" by simp
      then have "\<bar>r\<bar> \<le> \<bar>a\<bar>" using ar by simp
      with is_double_bound[OF assms(1)] have "\<bar>r\<bar> < 2 powi 1024" by simp
      moreover have "0 < \<bar>r\<bar>" using neg by simp
      ultimately have "ilog2 \<bar>r\<bar> < 1024" using ilog2_less_iff by blast
      with True show False by simp
    qed
    with True show ?thesis by (simp add: fl_def r_def[symmetric])
  next
    case False
    then have "js_add (Num a) (Num b) = Num r"
      by (auto simp: fl_def r_def[symmetric])
    moreover have "is_double r"
      using False by (auto simp: is_double_def r_def)
    ultimately show ?thesis using ar by simp
  qed
qed

lemma js_add_keeps_up:
  assumes "valid_number w" "w \<noteq> NaN" "js_ge i (Num 0)" "\<not> (w = NegInfinity \<and> i = Infinity)"
  shows "js_ge (js_add w i) w \<and> valid_number (js_add w i) \<and> js_add w i \<noteq> NaN
         \<and> (w \<noteq> NegInfinity \<longrightarrow> js_add w i \<noteq> NegInfinity)"
proof (cases i)
  case (Num b)
  with assms(3) have b: "0 \<le> b" by (simp add: js_ge_def)
  show ?thesis
  proof (cases w)
    case w: (Num a)
    with assms(1) have "is_double a" by (simp add: valid_number_def)
    from js_add_nonneg[OF this b] show ?thesis
      using w Num by (auto simp: js_ge_def valid_number_def)
  qed (use assms(2) Num in \<open>simp_all add: js_ge_def valid_number_def\<close>)
next
  case Infinity
  with assms(2,4) show ?thesis
    by (cases w) (simp_all add: js_ge_def valid_number_def)
qed (use assms(3) in \<open>simp_all add: js_ge_def\<close>)

lemma js_ge_trans:
  "js_ge c b \<Longrightarrow> js_ge b a \<Longrightarrow> js_ge c a"
  by (cases a; cases b; cases c) (simp_all add: js_ge_def)

lemma js_ge_refl: "w \<noteq> NaN \<Longrightarrow> js_ge w w"
  by (cases w) (simp_all add: js_ge_def)

lemma finishAll_sum:
  "wasteSaved (finishAll acts s)
     = foldl js_add (wasteSaved s) (map (\<lambda>(r, m). savings_of r m) acts)"
  by (induction acts arbitrary: s) (auto simp: finishCooking_def)

lemma finishAll_screen:
  "acts \<noteq> [] \<Longrightarrow> screen (finishAll acts s) = SUCCESS"
proof (induction acts arbitrary: s)
  case Nil
  then show ?case by simp
next
  case (Cons a acts)
  obtain r m where a: "a = (r, m)" by (cases a)
  show ?case
  proof (cases "acts = []")
    case True
    then show ?thesis by (simp add: a finishCooking_def)
  next
    case False
    then show ?thesis using Cons.IH by (simp add: a)
  qed
qed

lemma foldl_js_add_ge:
  assumes "valid_number w" "w \<noteq> NaN" "list_all (\<lambda>i. js_ge i (Num 0)) is"
    "\<not> (w = NegInfinity \<and> Infinity \<in> set is)"
  shows "js_ge (foldl js_add w is) w"
  using assms
proof (induction "is" arbitrary: w)
  case Nil
  then show ?case by (simp add: js_ge_refl)
next
  case (Cons i "is")
  from Cons.prems have i: "js_ge i (Num 0)" and rest: "list_all (\<lambda>i. js_ge i (Num 0)) is"
    and inf: "\<not> (w = NegInfinity \<and> i = Infinity)" by auto
  from js_add_keeps_up[OF Cons.prems(1,2) i inf]
  have 1: "js_ge (js_add w i) w" and 2: "valid_number (js_add w i)" and 3: "js_add w i \<noteq> NaN"
    and 4: "w \<noteq> NegInfinity \<longrightarrow> js_add w i \<noteq> NegInfinity"
    by simp_all
  from 4 Cons.prems(4) have "\<not> (js_add w i = NegInfinity \<and> Infinity \<in> set is)" by auto
  from Cons.IH[OF 2 3 rest this] have "js_ge (foldl js_add (js_add w i) is) (js_add w i)" .
  with 1 show ?case by (simp add: js_ge_trans)
qed

text \<open>
  C2, amended. For every run of \<open>finishCooking\<close> actions, each fired with a current
  recipe: the counter afterwards is the starting value plus the increments, added one
  after the other as numbers; the increment of an action is the recipe's \<open>savings_dh\<close>
  when the mode is \<open>HACK\<close> and the metric is present and neither zero nor NaN, and 5 in
  every other case; each action sets the screen to \<open>SUCCESS\<close>; and the counter afterwards
  is at least the counter before whenever the starting counter is a number other than
  NaN, every increment is at least 0, and the starting counter is not \<open>-Infinity\<close> while
  some increment is \<open>+Infinity\<close>.
\<close>

theorem finishAll_counter:
  "wasteSaved (finishAll acts s)
     = foldl js_add (wasteSaved s) (map (\<lambda>(r, m). savings_of r m) acts)
   \<and> (m = Some HACK \<and> savings_dh r = Some v \<and> v \<noteq> Num 0 \<and> v \<noteq> NaN \<longrightarrow> savings_of r m = v)
   \<and> (m \<noteq> Some HACK \<or> savings_dh r = None \<or> savings_dh r = Some (Num 0)
        \<or> savings_dh r = Some NaN \<longrightarrow> savings_of r m = Num 5)
   \<and> screen (finishCooking (s\<lparr>currentRecipe := Some r, selectedMode := m\<rparr>)) = SUCCESS
   \<and> (acts \<noteq> [] \<longrightarrow> screen (finishAll acts s) = SUCCESS)
   \<and> (valid_number (wasteSaved s) \<and> wasteSaved s \<noteq> NaN
        \<and> list_all (\<lambda>(r, m). js_ge (savings_of r m) (Num 0)) acts
        \<and> \<not> (wasteSaved s = NegInfinity \<and> list_ex (\<lambda>(r, m). savings_of r m = Infinity) acts)
        \<longrightarrow> js_ge (wasteSaved (finishAll acts s)) (wasteSaved s))"
proof (intro conjI impI)
  show "wasteSaved (finishAll acts s)
     = foldl js_add (wasteSaved s) (map (\<lambda>(r, m). savings_of r m) acts)"
    by (rule finishAll_sum)
  show "savings_of r m = v"
    if "m = Some HACK \<and> savings_dh r = Some v \<and> v \<noteq> Num 0 \<and> v \<noteq> NaN"
    using that by (simp add: savings_of_def truthy_number_def)
  show "savings_of r m = Num 5"
    if "m \<noteq> Some HACK \<or> savings_dh r = None \<or> savings_dh r = Some (Num 0)
        \<or> savings_dh r = Some NaN"
    using that by (auto simp: savings_of_def truthy_number_def)
  show "screen (finishCooking (s\<lparr>currentRecipe := Some r, selectedMode := m\<rparr>)) = SUCCESS"
    by (simp add: finishCooking_def)
  show "screen (finishAll acts s) = SUCCESS" if "acts \<noteq> []"
    using that by (rule finishAll_screen)
  show "js_ge (wasteSaved (finishAll acts s)) (wasteSaved s)"
    if h: "valid_number (wasteSaved s) \<and> wasteSaved s \<noteq> NaN
        \<and> list_all (\<lambda>(r, m). js_ge (savings_of r m) (Num 0)) acts
        \<and> \<not> (wasteSaved s = NegInfinity \<and> list_ex (\<lambda>(r, m). savings_of r m = Infinity) acts)"
  proof -
    from h have 1: "list_all (\<lambda>i. js_ge i (Num 0)) (map (\<lambda>(r, m). savings_of r m) acts)"
      by (simp add: list_all_iff case_prod_beta)
    from h have 2: "\<not> (wasteSaved s = NegInfinity
        \<and> Infinity \<in> set (map (\<lambda>(r, m). savings_of r m) acts))"
      by (auto simp: list_ex_iff)
    from h have v: "valid_number (wasteSaved s)" and n: "wasteSaved s \<noteq> NaN" by simp_all
    from foldl_js_add_ge[OF v n 1 2] show ?thesis
      by (simp only: finishAll_sum)
  qed
qed

theorem finishAll_counter_witness:
  "valid_number (wasteSaved cookingA) \<and> wasteSaved cookingA \<noteq> NaN
   \<and> list_all (\<lambda>(r, m). js_ge (savings_of r m) (Num 0)) [(recipeA, Some HACK), (recipeB, Some SHOP)]
   \<and> \<not> (wasteSaved cookingA = NegInfinity
          \<and> list_ex (\<lambda>(r, m). savings_of r m = Infinity) [(recipeA, Some HACK), (recipeB, Some SHOP)])
   \<and> [(recipeA, Some HACK), (recipeB, Some SHOP)] \<noteq> []
   \<and> savings_dh recipeA = Some (Num 20) \<and> savings_of recipeA (Some HACK) = Num 20
   \<and> savings_of recipeB (Some SHOP) = Num 5
   \<and> wasteSaved (finishAll [(recipeA, Some HACK), (recipeB, Some SHOP)] cookingA)
       = foldl js_add (Num 10) [Num 20, Num 5]
   \<and> screen (finishAll [(recipeA, Some HACK), (recipeB, Some SHOP)] cookingA) = SUCCESS
   \<and> js_ge (wasteSaved (finishAll [(recipeA, Some HACK), (recipeB, Some SHOP)] cookingA))
           (wasteSaved cookingA)"
proof -
  have v: "valid_number (wasteSaved cookingA)" by code_simp
  have n: "wasteSaved cookingA \<noteq> NaN" by (simp add: cookingA_def)
  have l: "list_all (\<lambda>(r, m). js_ge (savings_of r m) (Num 0)) [(recipeA, Some HACK), (recipeB, Some SHOP)]"
    by (simp add: js_ge_def savings_of_def truthy_number_def recipeA_def recipeB_def)
  have f: "\<not> (wasteSaved cookingA = NegInfinity
          \<and> list_ex (\<lambda>(r, m). savings_of r m = Infinity) [(recipeA, Some HACK), (recipeB, Some SHOP)])"
    by (simp add: cookingA_def)
  have a: "savings_dh recipeA = Some (Num 20)" by (simp add: recipeA_def)
  have w: "wasteSaved cookingA = Num 10" by (simp add: cookingA_def freshState_def)
  note T = finishAll_counter[of "[(recipeA, Some HACK), (recipeB, Some SHOP)]" cookingA
      "Some HACK" recipeA "Num 20"]
  note U = finishAll_counter[of "[(recipeA, Some HACK), (recipeB, Some SHOP)]" cookingA
      "Some SHOP" recipeB "Num 20"]
  have 1: "savings_of recipeA (Some HACK) = Num 20"
    using T[THEN conjunct2, THEN conjunct1] a by simp
  have 5: "savings_of recipeB (Some SHOP) = Num 5"
    using U[THEN conjunct2, THEN conjunct2, THEN conjunct1] by simp
  have 2: "screen (finishAll [(recipeA, Some HACK), (recipeB, Some SHOP)] cookingA) = SUCCESS"
    using T[THEN conjunct2, THEN conjunct2, THEN conjunct2, THEN conjunct2, THEN conjunct1]
    by blast
  have 3: "js_ge (wasteSaved (finishAll [(recipeA, Some HACK), (recipeB, Some SHOP)] cookingA))
              (wasteSaved cookingA)"
    using T[THEN conjunct2, THEN conjunct2, THEN conjunct2, THEN conjunct2, THEN conjunct2] v n l f
    by blast
  have "wasteSaved (finishAll [(recipeA, Some HACK), (recipeB, Some SHOP)] cookingA)
          = foldl js_add (wasteSaved cookingA)
              (map (\<lambda>(r, m). savings_of r m) [(recipeA, Some HACK), (recipeB, Some SHOP)])"
    by (rule T[THEN conjunct1])
  also have "\<dots> = foldl js_add (Num 10) [Num 20, Num 5]"
    by (simp add: 1 5 w)
  finally have 6: "wasteSaved (finishAll [(recipeA, Some HACK), (recipeB, Some SHOP)] cookingA)
       = foldl js_add (Num 10) [Num 20, Num 5]" .
  have e: "[(recipeA, Some HACK), (recipeB, Some SHOP)] \<noteq> []" by simp
  from v n l f e a 1 5 6 2 3 show ?thesis by (intro conjI)
qed

text \<open>
  A recipe whose \<open>savings_dh\<close> is negative lowers the counter: cooking it with hacks
  takes the counter from 10 to 7. With no current recipe \<open>finishCooking\<close> does not reach
  \<open>SUCCESS\<close>. A metric that is NaN is present and not zero, yet the increment is 5. A
  counter that is NaN stays NaN, which is not at least itself, and so does the counter
  \<open>-Infinity\<close> when the metric is \<open>+Infinity\<close>.
\<close>

theorem finishAll_counter_counterexample:
  "wasteSaved (finishAll [(recipeA\<lparr>savings_dh := Some (Num (- 3))\<rparr>, Some HACK)] cookingA) = Num 7
   \<and> wasteSaved cookingA = Num 10
   \<and> \<not> js_ge (wasteSaved (finishAll [(recipeA\<lparr>savings_dh := Some (Num (- 3))\<rparr>, Some HACK)] cookingA))
             (wasteSaved cookingA)
   \<and> screen (finishCooking freshState) \<noteq> SUCCESS
   \<and> savings_of (recipeA\<lparr>savings_dh := Some NaN\<rparr>) (Some HACK) = Num 5
   \<and> \<not> js_ge (wasteSaved (finishAll [(recipeB, Some SHOP)] (cookingA\<lparr>wasteSaved := NaN\<rparr>)))
             (wasteSaved (cookingA\<lparr>wasteSaved := NaN\<rparr>))
   \<and> \<not> js_ge (wasteSaved (finishAll [(recipeA\<lparr>savings_dh := Some Infinity\<rparr>, Some HACK)]
                                  (cookingA\<lparr>wasteSaved := NegInfinity\<rparr>)))
             (wasteSaved (cookingA\<lparr>wasteSaved := NegInfinity\<rparr>))"
proof -
  have a: "js_add (Num 10) (Num (- 3)) = Num 7" by code_simp
  have w: "wasteSaved (finishAll [(recipeA\<lparr>savings_dh := Some (Num (- 3))\<rparr>, Some HACK)] cookingA) = Num 7"
    using a by (simp add: finishCooking_def savings_of_def truthy_number_def cookingA_def
        freshState_def)
  have c: "wasteSaved cookingA = Num 10" by (simp add: cookingA_def freshState_def)
  have s: "screen (finishCooking freshState) \<noteq> SUCCESS"
    by (simp add: finishCooking_def freshState_def)
  have n: "savings_of (recipeA\<lparr>savings_dh := Some NaN\<rparr>) (Some HACK) = Num 5"
    by (simp add: savings_of_def truthy_number_def)
  have k: "\<not> js_ge (wasteSaved (finishAll [(recipeB, Some SHOP)] (cookingA\<lparr>wasteSaved := NaN\<rparr>)))
             (wasteSaved (cookingA\<lparr>wasteSaved := NaN\<rparr>))"
    by (simp add: js_ge_def)
  have i: "\<not> js_ge (wasteSaved (finishAll [(recipeA\<lparr>savings_dh := Some Infinity\<rparr>, Some HACK)]
                                  (cookingA\<lparr>wasteSaved := NegInfinity\<rparr>)))
             (wasteSaved (cookingA\<lparr>wasteSaved := NegInfinity\<rparr>))"
    by (simp add: finishCooking_def savings_of_def truthy_number_def js_ge_def)
  have g: "\<not> js_ge (wasteSaved (finishAll [(recipeA\<lparr>savings_dh := Some (Num (- 3))\<rparr>, Some HACK)] cookingA))
             (wasteSaved cookingA)"
    using w c by (simp add: js_ge_def)
  from w c g s n k i show ?thesis by (intro conjI)
qed

section \<open>What is persisted and what is loaded\<close>





section \<open>Defaulting a recipe\<close>

lemma get_prop_field:
  "v \<noteq> JUndefined \<Longrightarrow> v \<noteq> JNull \<Longrightarrow> get_prop v k = Inr (field v k)"
  by (cases v) (simp_all add: get_prop_def field_def)

lemma field_value_safe:
  assumes "v \<noteq> JUndefined" "v \<noteq> JNull"
  shows "field_value v k Array_or_empty = Inr (if isArray (field v k) then field v k else JArray [])"
    and "field_value v k (Or_default d) = Inr (if truthy (field v k) then field v k else d)"
  using assms by (simp_all add: field_value_def get_prop_field js_or_def)

lemma field_JObject:
  "field (JObject ps) k = (case map_of ps k of None \<Rightarrow> JUndefined | Some x \<Rightarrow> x)"
  by (simp add: field_def get_prop_def)

lemma truthy_defined: "truthy v \<Longrightarrow> v \<noteq> JUndefined \<and> v \<noteq> JNull"
  by (auto simp: truthy_def)

lemma safeRecipe_truthy:
  assumes "truthy recipe"
  shows "\<exists>safe. safeRecipe recipe = Inr safe
    \<and> field safe ''hacks'' = (if isArray (field recipe ''hacks'') then field recipe ''hacks'' else JArray [])
    \<and> field safe ''ingredients''
        = (if isArray (field recipe ''ingredients'') then field recipe ''ingredients'' else JArray [])
    \<and> field safe ''steps'' = (if isArray (field recipe ''steps'') then field recipe ''steps'' else JArray [])
    \<and> field safe ''tips'' = (if isArray (field recipe ''tips'') then field recipe ''tips'' else JArray [])
    \<and> field safe ''safety_factors''
        = (if isArray (field recipe ''safety_factors'') then field recipe ''safety_factors'' else JArray [])
    \<and> field safe ''already_have''
        = (if isArray (field recipe ''already_have'') then field recipe ''already_have'' else JArray [])
    \<and> field safe ''need_to_buy''
        = (if isArray (field recipe ''need_to_buy'') then field recipe ''need_to_buy'' else JArray [])
    \<and> field safe ''safety_score''
        = (if truthy (field recipe ''safety_score'') then field recipe ''safety_score'' else JNumber (Num 0))
    \<and> field safe ''difficulty''
        = (if truthy (field recipe ''difficulty'') then field recipe ''difficulty'' else JString ''Medium'')
    \<and> field safe ''name''
        = (if truthy (field recipe ''name'') then field recipe ''name'' else JString ''Untitled Recipe'')
    \<and> field safe ''description''
        = (if truthy (field recipe ''description'') then field recipe ''description'' else JString [])
    \<and> field safe ''imageUrl''
        = (if truthy (field recipe ''imageUrl'') then field recipe ''imageUrl'' else JNull)"
proof -
  from truthy_defined[OF assms] have d: "recipe \<noteq> JUndefined" "recipe \<noteq> JNull" by simp_all
  show ?thesis
    by (simp add: safeRecipe_def safe_fields_def field_value_safe[OF d] field_JObject
        update_conv')
qed


lemma detailRecipe_total: "\<exists>res. detailRecipe selected current = Inr res"
proof (cases "truthy (js_or selected current)")
  case True
  from safeRecipe_truthy[OF True] obtain safe
    where "safeRecipe (js_or selected current) = Inr safe" by blast
  with True show ?thesis by (simp add: detailRecipe_def)
next
  case False
  then show ?thesis by (simp add: detailRecipe_def)
qed

text \<open>
  C7. Defaulting never throws: whatever the two recipe slots hold, the detail view gets
  either nothing to render or a defaulted recipe. For every recipe value that passes the
  guard, each of the seven list fields of the defaulted recipe is the original when that
  is an array and the empty array otherwise, and \<open>safety_score\<close>, \<open>difficulty\<close>, \<open>name\<close>,
  \<open>description\<close> and \<open>imageUrl\<close> are the original when it is truthy and \<open>0\<close>, "Medium",
  "Untitled Recipe", "" and \<open>null\<close> otherwise.
\<close>

theorem safeRecipe_defaults:
  "(\<exists>res. detailRecipe selected current = Inr res)
   \<and> (truthy recipe \<longrightarrow>
       (\<exists>safe. safeRecipe recipe = Inr safe
    \<and> field safe ''hacks'' = (if isArray (field recipe ''hacks'') then field recipe ''hacks'' else JArray [])
    \<and> field safe ''ingredients''
        = (if isArray (field recipe ''ingredients'') then field recipe ''ingredients'' else JArray [])
    \<and> field safe ''steps'' = (if isArray (field recipe ''steps'') then field recipe ''steps'' else JArray [])
    \<and> field safe ''tips'' = (if isArray (field recipe ''tips'') then field recipe ''tips'' else JArray [])
    \<and> field safe ''safety_factors''
        = (if isArray (field recipe ''safety_factors'') then field recipe ''safety_factors'' else JArray [])
    \<and> field safe ''already_have''
        = (if isArray (field recipe ''already_have'') then field recipe ''already_have'' else JArray [])
    \<and> field safe ''need_to_buy''
        = (if isArray (field recipe ''need_to_buy'') then field recipe ''need_to_buy'' else JArray [])
    \<and> field safe ''safety_score''
        = (if truthy (field recipe ''safety_score'') then field recipe ''safety_score'' else JNumber (Num 0))
    \<and> field safe ''difficulty''
        = (if truthy (field recipe ''difficulty'') then field recipe ''difficulty'' else JString ''Medium'')
    \<and> field safe ''name''
        = (if truthy (field recipe ''name'') then field recipe ''name'' else JString ''Untitled Recipe'')
    \<and> field safe ''description''
        = (if truthy (field recipe ''description'') then field recipe ''description'' else JString [])
    \<and> field safe ''imageUrl''
        = (if truthy (field recipe ''imageUrl'') then field recipe ''imageUrl'' else JNull)))"
  using detailRecipe_total[of selected current] safeRecipe_truthy[of recipe] by blast

text \<open>
  A recipe object without \<open>hacks\<close> and without \<open>safety_score\<close>, whose \<open>tips\<close> is a string:
  the defaulted recipe has an empty list of hacks, the score 0, an empty list of tips,
  and keeps its steps and its name.
\<close>

theorem safeRecipe_defaults_witness:
  "truthy partialRecipe
   \<and> (\<exists>safe. safeRecipe partialRecipe = Inr safe
        \<and> field safe ''hacks'' = JArray []
        \<and> field safe ''safety_score'' = JNumber (Num 0)
        \<and> field safe ''tips'' = JArray []
        \<and> field safe ''steps'' = JArray [JString ''Chop'', JString ''Simmer'']
        \<and> field safe ''name'' = JString ''Tagine'')"
proof -
  have t: "truthy partialRecipe" by (simp add: partialRecipe_def truthy_def)
  from safeRecipe_defaults[of JNull JNull partialRecipe] t
  obtain safe where s: "safeRecipe partialRecipe = Inr safe"
    and h: "field safe ''hacks''
        = (if isArray (field partialRecipe ''hacks'') then field partialRecipe ''hacks'' else JArray [])"
    and c: "field safe ''safety_score''
        = (if truthy (field partialRecipe ''safety_score'') then field partialRecipe ''safety_score''
           else JNumber (Num 0))"
    and p: "field safe ''tips''
        = (if isArray (field partialRecipe ''tips'') then field partialRecipe ''tips'' else JArray [])"
    and e: "field safe ''steps''
        = (if isArray (field partialRecipe ''steps'') then field partialRecipe ''steps'' else JArray [])"
    and n: "field safe ''name''
        = (if truthy (field partialRecipe ''name'') then field partialRecipe ''name''
           else JString ''Untitled Recipe'')"
    by blast
  have "field safe ''hacks'' = JArray []"
    using h by (simp add: partialRecipe_def field_JObject isArray_def)
  moreover have "field safe ''safety_score'' = JNumber (Num 0)"
    using c by (simp add: partialRecipe_def field_JObject truthy_def)
  moreover have "field safe ''tips'' = JArray []"
    using p by (simp add: partialRecipe_def field_JObject isArray_def)
  moreover have "field safe ''steps'' = JArray [JString ''Chop'', JString ''Simmer'']"
    using e by (simp add: partialRecipe_def field_JObject isArray_def)
  moreover have "field safe ''name'' = JString ''Tagine''"
    using n by (simp add: partialRecipe_def field_JObject truthy_def)
  ultimately show ?thesis using t s by blast
qed

section \<open>Screens and the step of the cooking session\<close>

text \<open>
  When every recipe the service answers with has at least one step, every reachable
  state satisfies the invariant: on \<open>RECIPE_DETAIL\<close> one of the two recipe slots is
  filled, and on \<open>COOKING\<close> there is a current recipe and the step lies within its steps.
\<close>

lemma strong_invariant_reachable:
  assumes served: "\<And>r. served r \<Longrightarrow> steps r \<noteq> []"
  shows "reachable served a \<Longrightarrow> strong_invariant a"
proof (induction rule: reachable.induct)
  case fresh
  show ?case by (simp add: strong_invariant_def has_steps_def freshState_def recipe_screens_def)
next
  case (reload a w)
  then show ?case
    by (auto simp: strong_invariant_def has_steps_def stateToSave_def strip_image_def
        recipe_screens_def list_all_iff split: option.splits)
next
  case (generated a recipe)
  then show ?case using served[of recipe]
    by (auto simp: strong_invariant_def has_steps_def recipeGenerated_def recipe_screens_def
        split: option.splits)
next
  case (image a rid illustration)
  then show ?case
    by (auto simp: strong_invariant_def has_steps_def imageResolved_def recipe_screens_def
        split: option.splits)
next
  case (edited a0 r old newImage a)
  then show ?case
    by (auto simp: strong_invariant_def has_steps_def activeRecipe_def recipe_screens_def
        list_all_iff split: option.splits)
next
  case (saved a ty today)
  then show ?case
    by (auto simp: strong_invariant_def has_steps_def saveRecipe_def recipe_screens_def
        split: option.splits)
next
  case (dropIngredient a i)
  then show ?case
    by (auto simp: strong_invariant_def has_steps_def removeIngredient_def recipe_screens_def)
next
  case (selectSaved a recipe)
  then show ?case
    by (auto simp: strong_invariant_def has_steps_def recipe_screens_def list_all_iff
        split: option.splits)
next
  case (cookNow a recipe)
  then show ?case
    by (auto simp: strong_invariant_def has_steps_def activeRecipe_def safeRecipe_typed_def
        recipe_screens_def split: option.splits)
next
  case (finish a recipe)
  then show ?case
    by (auto simp: strong_invariant_def has_steps_def finishCooking_def recipe_screens_def
        split: option.splits)
qed (auto simp: strong_invariant_def has_steps_def recipe_screens_def split: option.splits)

lemma screen_invariant_reachable:
  assumes "\<And>r. served r \<Longrightarrow> steps r \<noteq> []" "reachable served a"
  shows "screen_invariant a"
  using strong_invariant_reachable[OF assms]
  by (auto simp: strong_invariant_def screen_invariant_def)


text \<open>
  C5. The invariant fails for a recipe without steps, which the service may answer with
  (and which \<open>safeRecipe\<close> itself makes of a recipe whose \<open>steps\<close> is missing). From a
  fresh session, generating \<open>noSteps\<close> and choosing "Cook with Hacks" reaches the
  \<open>COOKING\<close> screen with step 0 of 0 steps. There "Next" is offered, because
  \<open>0 \<noteq> 0 - 1\<close>, and leads to step 1, while "Done" is offered at no step.
\<close>

theorem cooking_without_steps:
  "reachable any_recipe stuck
   \<and> screen (state stuck) = COOKING
   \<and> currentRecipe (state stuck) = Some (noSteps\<lparr>imageUrl := Some []\<rparr>)
   \<and> currentStepIndex stuck = 0
   \<and> length (steps (noSteps\<lparr>imageUrl := Some []\<rparr>)) = 0
   \<and> \<not> currentStepIndex stuck < int (length (steps (noSteps\<lparr>imageUrl := Some []\<rparr>)))
   \<and> reachable any_recipe (stuck\<lparr>currentStepIndex := 1\<rparr>)"
proof -
  have r0: "reachable any_recipe \<lparr>state = freshState, currentStepIndex = 0\<rparr>"
    by (rule reachable.fresh)
  have "any_recipe noSteps" by (simp add: any_recipe_def)
  from reachable.generated[OF r0 this]
  have r1: "reachable any_recipe \<lparr>state = recipeGenerated noSteps freshState, currentStepIndex = 0\<rparr>"
    by simp
  have c1: "currentRecipe (recipeGenerated noSteps freshState) = Some (noSteps\<lparr>imageUrl := Some []\<rparr>)"
    and s1: "screen (recipeGenerated noSteps freshState) = RESULT"
    by (simp_all add: recipeGenerated_def)
  from reachable.cookWithHacks[OF r1, of "noSteps\<lparr>imageUrl := Some []\<rparr>"] c1 s1
  have r2: "reachable any_recipe stuck" by (simp add: stuck_def)
  have sc: "screen (state stuck) = COOKING"
    and cr: "currentRecipe (state stuck) = Some (noSteps\<lparr>imageUrl := Some []\<rparr>)"
    and ix: "currentStepIndex stuck = 0"
    by (simp_all add: stuck_def)
  have ln: "length (steps (noSteps\<lparr>imageUrl := Some []\<rparr>)) = 0"
    by (simp add: noSteps_def)
  from reachable.nextStep[OF r2 sc cr] ix ln
  have r3: "reachable any_recipe (stuck\<lparr>currentStepIndex := 1\<rparr>)" by simp
  from r2 sc cr ix ln r3 show ?thesis by simp
qed

end
